theory Spec2Isabelle
  imports Main "HOL-Library.Sublist" "HOL-Library.Sorting_Algorithms"
    "HOL-Library.List_Lexorder" "HOL-Library.Char_ord" "HOL-Library.Log_Nat"
begin

section \<open>Strings\<close>

text \<open>
  The ingestion decodes its input as ISO-8859-1, so every character of a header, a cell
  or a parameter name is one of the 256 Latin-1 code points. A string is modelled as a
  list of 8-bit characters, each read as its Latin-1 code point.

  \<open>toUpperCase\<close> follows the upper-casing of JavaScript on that range: the letters
  a to z and the accented letters 0xE0 to 0xFE (without the division sign 0xF7) move to
  the code point 32 below, which clears bit 5, and the sharp s 0xDF becomes the two
  letters SS. The micro sign 0xB5 and the y with diaeresis 0xFF have upper-case forms
  outside the 8-bit range; they are left as they are, which no test of this development
  can observe because every pattern searched for is made of ASCII characters.
\<close>

fun upper_char :: "char \<Rightarrow> string" where
  "upper_char (Char b0 b1 b2 b3 b4 b5 b6 b7) =
    (let n = (of_char (Char b0 b1 b2 b3 b4 b5 b6 b7) :: nat) in
     if 97 \<le> n \<and> n \<le> 122 then [Char b0 b1 b2 b3 b4 False b6 b7]
     else if n = 223 then ''SS''
     else if 224 \<le> n \<and> n \<le> 254 \<and> n \<noteq> 247 then [Char b0 b1 b2 b3 b4 False b6 b7]
     else [Char b0 b1 b2 b3 b4 b5 b6 b7])"

definition toUpperCase :: "string \<Rightarrow> string" where
  "toUpperCase s = concat (map upper_char s)"

text \<open>\<open>s.startsWith(p)\<close> and \<open>s.includes(p)\<close>: \<open>p\<close> is a prefix, a contiguous part, of \<open>s\<close>.\<close>

primrec startsWith :: "string \<Rightarrow> string \<Rightarrow> bool" where
  "startsWith s [] = True"
| "startsWith s (p # ps) = (case s of [] \<Rightarrow> False | c # cs \<Rightarrow> c = p \<and> startsWith cs ps)"

fun includes_str :: "string \<Rightarrow> string \<Rightarrow> bool" where
  "includes_str [] p = (p = [])"
| "includes_str (c # cs) p = (startsWith (c # cs) p \<or> includes_str cs p)"

section \<open>Device classification\<close>

datatype DeviceGroup = pH_LF_TIT | TOC | IC | ICP_OES | Sonstige

definition GROUP_ORDER :: "DeviceGroup list" where
  "GROUP_ORDER = [pH_LF_TIT, TOC, IC, ICP_OES, Sonstige]"

text \<open>\<open>getDeviceGroup\<close> of the selection component (DataSelection).\<close>

definition getDeviceGroup :: "string \<Rightarrow> DeviceGroup" where
  "getDeviceGroup headerBase =
    (let h = toUpperCase headerBase in
     if includes_str h ''TIT'' \<or> includes_str h ''M1.'' \<or> includes_str h ''M3.''
        \<or> includes_str h ''M8.'' \<or> includes_str h ''HH+PHM'' \<or> includes_str h ''LFLFM''
     then pH_LF_TIT
     else if includes_str h ''TOC'' then TOC
     else if includes_str h ''ICP'' then ICP_OES
     else if includes_str h ''IC'' then IC
     else Sonstige)"

text \<open>\<open>getDeviceGroup\<close> of the report component (ReportView), a second copy in the source.\<close>

definition getDeviceGroup_report :: "string \<Rightarrow> DeviceGroup" where
  "getDeviceGroup_report header =
    (let h = toUpperCase header in
     if includes_str h ''TIT'' \<or> includes_str h ''M1.'' \<or> includes_str h ''M3.''
        \<or> includes_str h ''M8.'' \<or> includes_str h ''HH+PHM'' \<or> includes_str h ''LFLFM''
     then pH_LF_TIT
     else if includes_str h ''TOC'' then TOC
     else if includes_str h ''ICP'' then ICP_OES
     else if includes_str h ''IC'' then IC
     else Sonstige)"

text \<open>
  The classification as the specification words it: an ordered table of rules, each a
  list of patterns with the group it gives; the first rule with a pattern found in the
  upper-cased name decides, and a name that no rule matches is \<open>Sonstige\<close>.
\<close>

definition classify_rules :: "(string list \<times> DeviceGroup) list" where
  "classify_rules =
    [([''TIT'', ''M1.'', ''M3.'', ''M8.'', ''HH+PHM'', ''LFLFM''], pH_LF_TIT),
     ([''TOC''], TOC),
     ([''ICP''], ICP_OES),
     ([''IC''], IC)]"

fun first_match :: "string \<Rightarrow> (string list \<times> DeviceGroup) list \<Rightarrow> DeviceGroup" where
  "first_match h [] = Sonstige"
| "first_match h ((ps, g) # rs) = (if list_ex (includes_str h) ps then g else first_match h rs)"

definition classify_spec :: "string \<Rightarrow> DeviceGroup" where
  "classify_spec name = first_match (toUpperCase name) classify_rules"

section \<open>Selection model\<close>

text \<open>
  \<open>SelectionState\<close> of the source: the set of selected row ids and, per row id, the set
  of active base parameters. The \<open>Record\<close> of the source is a map; a row id without an
  entry reads as \<open>undefined\<close>, here \<open>None\<close>.
\<close>

record SelectionState =
  selectedRowIds :: "string set"
  rowParams :: "string \<rightharpoonup> string set"

text \<open>
  \<open>toggleRowParam\<close>: the state transition passed to \<open>setSelection\<close>. A row without an
  entry starts from the empty set.
\<close>

definition toggleRowParam :: "string \<Rightarrow> string \<Rightarrow> SelectionState \<Rightarrow> SelectionState" where
  "toggleRowParam rowId baseParam prev =
    (let currentParams = (case rowParams prev rowId of Some ps \<Rightarrow> ps | None \<Rightarrow> {});
         currentParams' = (if baseParam \<in> currentParams then currentParams - {baseParam}
                           else insert baseParam currentParams)
     in prev\<lparr>rowParams := (rowParams prev)(rowId \<mapsto> currentParams')\<rparr>)"

datatype ChemSet = P | S | N

text \<open>The filter predicates of \<open>toggleChemSet\<close>, one per chemical set.\<close>

fun chemSetFilter :: "ChemSet \<Rightarrow> string \<Rightarrow> bool" where
  "chemSetFilter P p =
    (let u = toUpperCase p in includes_str u ''PPO4IC'' \<or> includes_str u ''PPGESICP'')"
| "chemSetFilter S p =
    (let u = toUpperCase p in includes_str u ''SSO4IC'' \<or> includes_str u ''SSGESICP'')"
| "chemSetFilter N p =
    (let u = toUpperCase p in includes_str u ''NNGESTOC'' \<or> includes_str u ''NNH4IC''
       \<or> includes_str u ''NNO2IC'' \<or> includes_str u ''NNO3IC'' \<or> includes_str u ''CGES'')"

text \<open>
  \<open>toggleChemSet\<close>: the third argument is the list of the row's available base
  parameters, as the caller passes it. With no target parameter the function returns
  before \<open>setSelection\<close> is called, which leaves the state as it is.
\<close>

definition toggleChemSet ::
  "string \<Rightarrow> ChemSet \<Rightarrow> string list \<Rightarrow> SelectionState \<Rightarrow> SelectionState" where
  "toggleChemSet rowId type availableParams prev =
    (let targetParams = filter (chemSetFilter type) availableParams in
     if length targetParams = 0 then prev
     else prev\<lparr>rowParams := (rowParams prev)(rowId \<mapsto> set targetParams)\<rparr>)"

text \<open>
  The fixed name lists of the chemical sets as the specification gives them, matched as
  case-insensitive substrings.
\<close>

fun chemSetNames :: "ChemSet \<Rightarrow> string list" where
  "chemSetNames P = [''PPO4IC'', ''PPgesICP'']"
| "chemSetNames S = [''SSO4IC'', ''SSgesICP'']"
| "chemSetNames N = [''NNgesTOC'', ''NNH4IC'', ''NNO2IC'', ''NNO3IC'', ''CGES'']"

definition matchesChemSet :: "ChemSet \<Rightarrow> string \<Rightarrow> bool" where
  "matchesChemSet t p =
    list_ex (\<lambda>n. includes_str (toUpperCase p) (toUpperCase n)) (chemSetNames t)"

section \<open>Row colour\<close>

record ColorClass =
  className :: string
  hexColor :: string

text \<open>
  \<open>getRowColorClass\<close> of the report component. \<open>Array.from\<close> of the active set is only
  read through \<open>length\<close>, \<open>some\<close> and \<open>every\<close>, so the set itself is kept.
\<close>

definition has :: "string set \<Rightarrow> string \<Rightarrow> bool" where
  "has s partial = (\<exists>c\<in>s. includes_str (toUpperCase c) (toUpperCase partial))"

definition getRowColorClass :: "SelectionState \<Rightarrow> string \<Rightarrow> ColorClass" where
  "getRowColorClass selection rowId =
    (let s = (case rowParams selection rowId of Some ps \<Rightarrow> ps | None \<Rightarrow> {}) in
     if s = {} then \<lparr>className = ''bg-white'', hexColor = ''FFFFFF''\<rparr>
     else
      let hasTOC = has s ''TOC'';
          hasIC = has s ''IC'';
          hasICP = has s ''ICP'';
          hasPH = (has s ''TIT'' \<or> has s ''M1.'' \<or> has s ''M3.'' \<or> has s ''M8.''
                   \<or> has s ''HH+PHM'' \<or> has s ''LFLFM'');
          isYellow = (s \<noteq> {} \<and> (\<forall>c\<in>s. let u = toUpperCase c in
                        includes_str u ''PPO4IC'' \<or> includes_str u ''PPGESICP''));
          isOrange = (s \<noteq> {} \<and> (\<forall>c\<in>s. let u = toUpperCase c in
                        includes_str u ''SSO4IC'' \<or> includes_str u ''SSGESICP''));
          isPink = (s \<noteq> {} \<and> (\<forall>c\<in>s. let u = toUpperCase c in
                        includes_str u ''NNGESTOC'' \<or> includes_str u ''NNH4IC''
                        \<or> includes_str u ''NNO2IC'' \<or> includes_str u ''NNO3IC''
                        \<or> includes_str u ''CGES''))
      in
       if isYellow then
         \<lparr>className = ''bg-yellow-100 border-l-4 border-l-yellow-500'', hexColor = ''FFFFCC''\<rparr>
       else if isOrange then
         \<lparr>className = ''bg-orange-100 border-l-4 border-l-orange-500'', hexColor = ''FFDDBB''\<rparr>
       else if isPink then
         \<lparr>className = ''bg-pink-100 border-l-4 border-l-pink-500'', hexColor = ''FFCCFF''\<rparr>
       else if hasPH \<and> \<not> hasTOC \<and> \<not> hasIC \<and> \<not> hasICP then
         \<lparr>className = ''bg-purple-100 border-l-4 border-l-purple-500'', hexColor = ''E6CCFF''\<rparr>
       else if hasTOC \<and> hasIC \<and> \<not> hasICP \<and> \<not> hasPH then
         \<lparr>className = ''bg-red-100 border-l-4 border-l-red-500'', hexColor = ''FFCCCC''\<rparr>
       else if hasIC \<and> hasICP \<and> \<not> hasTOC \<and> \<not> hasPH then
         \<lparr>className = ''bg-blue-100 border-l-4 border-l-blue-500'', hexColor = ''CCE5FF''\<rparr>
       else if hasTOC \<and> hasIC \<and> hasICP then
         \<lparr>className = ''bg-green-100 border-l-4 border-l-green-500'', hexColor = ''CCFFCC''\<rparr>
       else \<lparr>className = ''bg-white'', hexColor = ''FFFFFF''\<rparr>)"

text \<open>
  The device groups a set of parameters spans, and the colours by the name the
  specification gives them.
\<close>

definition groupsOf :: "string set \<Rightarrow> DeviceGroup set" where
  "groupsOf s = getDeviceGroup_report ` s"

definition color_default :: ColorClass where
  "color_default = \<lparr>className = ''bg-white'', hexColor = ''FFFFFF''\<rparr>"

definition color_P :: ColorClass where
  "color_P = \<lparr>className = ''bg-yellow-100 border-l-4 border-l-yellow-500'', hexColor = ''FFFFCC''\<rparr>"

definition color_IC_ICP :: ColorClass where
  "color_IC_ICP = \<lparr>className = ''bg-blue-100 border-l-4 border-l-blue-500'', hexColor = ''CCE5FF''\<rparr>"

definition color_ALL :: ColorClass where
  "color_ALL = \<lparr>className = ''bg-green-100 border-l-4 border-l-green-500'', hexColor = ''CCFFCC''\<rparr>"

definition color_S :: ColorClass where
  "color_S = \<lparr>className = ''bg-orange-100 border-l-4 border-l-orange-500'', hexColor = ''FFDDBB''\<rparr>"

definition color_N :: ColorClass where
  "color_N = \<lparr>className = ''bg-pink-100 border-l-4 border-l-pink-500'', hexColor = ''FFCCFF''\<rparr>"

text \<open>The active set of a row, as the first lines of \<open>getRowColorClass\<close> read it.\<close>

definition activeParams :: "SelectionState \<Rightarrow> string \<Rightarrow> string set" where
  "activeParams selection rowId = (case rowParams selection rowId of Some ps \<Rightarrow> ps | None \<Rightarrow> {})"

section \<open>CSV ingestion\<close>

text \<open>
  \<open>trim\<close> removes white space and line terminators at both ends; on the Latin-1 range
  these are the code points 0x09 to 0x0D, 0x20 and 0xA0.
\<close>

definition isWhiteSpace :: "char \<Rightarrow> bool" where
  "isWhiteSpace c = (c \<in> set [CHR 0x09, CHR 0x0A, CHR 0x0B, CHR 0x0C, CHR 0x0D, CHR 0x20, CHR 0xA0])"

definition trim :: "string \<Rightarrow> string" where
  "trim s = rev (dropWhile isWhiteSpace (rev (dropWhile isWhiteSpace s)))"

text \<open>The decimal numeral of a row index, for the row id \<open>row-i\<close>.\<close>

function string_of_nat :: "nat \<Rightarrow> string" where
  "string_of_nat n =
    (if n < 10 then [''0123456789'' ! n]
     else string_of_nat (n div 10) @ [''0123456789'' ! (n mod 10)])"
  by pat_completeness auto
termination
  by (relation "measure id") auto

declare string_of_nat.simps [simp del]

text \<open>
  The two errors the parser throws, which reject the promise: the file has fewer than
  three rows (or no rows at all), and the header row (row 2 of the file) cannot be read.
\<close>

datatype IngestError = FileEmptyOrTooShort | HeaderRowUnreadable

record LabDataRow =
  row_id :: string
  seriesId :: string
  sampleId :: string
  isRepeat :: bool
  rawRepeatValue :: string
  results :: "string \<rightharpoonup> string"

text \<open>
  The upload date is the clock reading at the end of the parse; it is passed in.
\<close>

record ParsedDataset =
  fileName :: string
  uploadDate :: nat
  resultHeaders :: "string list"
  data :: "LabDataRow list"

text \<open>
  A raw row is an array of cells; the parser guards against a row that is \<open>undefined\<close>
  or \<open>null\<close>, which is \<open>None\<close> here. Reading a cell beyond the end of a row gives
  \<open>undefined\<close>, and the source turns \<open>undefined\<close> and the empty string into the empty
  string and trims every other cell (\<open>val ? val.trim() : ''\<close>).
\<close>

type_synonym RawRow = "string list option"

definition cell :: "string list \<Rightarrow> nat \<Rightarrow> string option" where
  "cell row i = (if i < length row then Some (row ! i) else None)"

definition trimOrEmpty :: "string option \<Rightarrow> string" where
  "trimOrEmpty val = (case val of None \<Rightarrow> [] | Some v \<Rightarrow> if v = [] then [] else trim v)"

text \<open>
  Step 1: the header cells from column index 7 on that are not blank, each with its
  trimmed name and its original column index.
\<close>

definition headerMapping :: "string list \<Rightarrow> (string \<times> nat) list" where
  "headerMapping headerRow =
    map (\<lambda>i. (trim (headerRow ! i), i))
      (filter (\<lambda>i. headerRow ! i \<noteq> [] \<and> trim (headerRow ! i) \<noteq> []) [7..<length headerRow])"

text \<open>
  Step 3: the results object of one row, written entry by entry in the order of the
  sorted mapping; a later entry with the same name overwrites the earlier one. The
  object starts as the literal \<open>{}\<close>, whose prototype has the accessor \<open>__proto__\<close>:
  the assignment \<open>resultValues['__proto__'] = val\<close> calls its setter, which ignores a
  string and adds no entry. Every other name is written as an entry of the object
  itself. The map holds the entries of the object itself.
\<close>

definition resultValues :: "(string \<times> nat) list \<Rightarrow> string list \<Rightarrow> (string \<rightharpoonup> string)" where
  "resultValues hm row =
    foldl (\<lambda>m mapItem.
             if fst mapItem = ''__proto__'' then m
             else m(fst mapItem \<mapsto> trimOrEmpty (cell row (snd mapItem))))
      Map.empty hm"

definition skipRow :: "RawRow \<Rightarrow> bool" where
  "skipRow row = (case row of None \<Rightarrow> True
     | Some r \<Rightarrow> length r < 2 \<or> (length r = 1 \<and> r ! 0 = []))"

definition mkRow :: "(string \<times> nat) list \<Rightarrow> nat \<Rightarrow> string list \<Rightarrow> LabDataRow" where
  "mkRow hm i row =
    (let repeatVal = trimOrEmpty (cell row 3) in
     \<lparr>row_id = ''row-'' @ string_of_nat i,
      seriesId = trimOrEmpty (cell row 0),
      sampleId = trimOrEmpty (cell row 1),
      isRepeat = (repeatVal = ''2''),
      rawRepeatValue = repeatVal,
      results = resultValues hm row\<rparr>)"

text \<open>The loop over the data rows, \<open>i\<close> the index of the row in the raw file.\<close>

fun dataLoop :: "(string \<times> nat) list \<Rightarrow> nat \<Rightarrow> RawRow list \<Rightarrow> LabDataRow list" where
  "dataLoop hm i [] = []"
| "dataLoop hm i (row # rest) =
    (if skipRow row then dataLoop hm (Suc i) rest
     else mkRow hm i (the row) # dataLoop hm (Suc i) rest)"

text \<open>
  \<open>parseLabDataCsv\<close>, the body of the \<open>complete\<close> callback. The German collation
  \<open>localeCompare(_, 'de')\<close> is a parameter: a comparator, that is a linear order up to
  equivalence, so that the stable sort of the source is the insertion sort of the
  library. The result is the error that rejects the promise or the dataset that
  resolves it.
\<close>

definition parseLabDataCsv ::
  "string comparator \<Rightarrow> string \<Rightarrow> nat \<Rightarrow> RawRow list option \<Rightarrow> IngestError + ParsedDataset" where
  "parseLabDataCsv localeCompare_de file_name now results_data =
    (case results_data of
       None \<Rightarrow> Inl FileEmptyOrTooShort
     | Some rawRows \<Rightarrow>
        if length rawRows < 3 then Inl FileEmptyOrTooShort
        else case rawRows ! 1 of
          None \<Rightarrow> Inl HeaderRowUnreadable
        | Some headerRow \<Rightarrow>
            let hm = Sorting_Algorithms.sort (key fst localeCompare_de) (headerMapping headerRow);
                sortedResultHeaders = map fst hm;
                parsedData = dataLoop hm 2 (drop 2 rawRows)
            in Inr \<lparr>fileName = file_name, uploadDate = now,
                     resultHeaders = sortedResultHeaders, data = parsedData\<rparr>)"

text \<open>
  Two raw files for the examples below: one whose header row has the same text in two
  columns, and one with two different headers, a repeat row, a row with a single empty
  cell, a missing row and a short row. The datasets are what the parser returns on them
  with the order of the character codes as collation.
\<close>

definition dup_file :: "RawRow list" where
  "dup_file =
    [Some [''Export''],
     Some [''Serie'', ''Probe'', [], ''Wdh'', [], [], [], ''ICCa2.1'', ''ICCa2.1''],
     Some [''S1'', ''P1'', [], ''1'', [], [], [], ''1,5'', ''2,5'']]"

definition dup_dataset :: ParsedDataset where
  "dup_dataset =
    \<lparr>fileName = ''f.csv'', uploadDate = 0, resultHeaders = [''ICCa2.1'', ''ICCa2.1''],
     data = [\<lparr>row_id = ''row-2'', seriesId = ''S1'', sampleId = ''P1'', isRepeat = False,
              rawRepeatValue = ''1'', results = [''ICCa2.1'' \<mapsto> ''2,5'']\<rparr>]\<rparr>"

definition two_file :: "RawRow list" where
  "two_file =
    [Some [''Export''],
     Some [''Serie'', ''Probe'', [], ''Wdh'', [], [], [], ''TOCTOC1.1'', '' ICCa2.1 ''],
     Some [''S1'', ''P1'', [], ''2'', [], [], [], '' 7,1''],
     Some [[]],
     None,
     Some [''S1'', ''P2'']]"

definition two_dataset :: ParsedDataset where
  "two_dataset =
    \<lparr>fileName = ''f.csv'', uploadDate = 0, resultHeaders = [''ICCa2.1'', ''TOCTOC1.1''],
     data = [\<lparr>row_id = ''row-2'', seriesId = ''S1'', sampleId = ''P1'', isRepeat = True,
              rawRepeatValue = ''2'', results = [''ICCa2.1'' \<mapsto> [], ''TOCTOC1.1'' \<mapsto> ''7,1'']\<rparr>,
             \<lparr>row_id = ''row-5'', seriesId = ''S1'', sampleId = ''P2'', isRepeat = False,
              rawRepeatValue = [], results = [''ICCa2.1'' \<mapsto> [], ''TOCTOC1.1'' \<mapsto> []]\<rparr>]\<rparr>"

text \<open>A raw file whose header row has the text \<open>__proto__\<close> in one column.\<close>

definition proto_file :: "RawRow list" where
  "proto_file =
    [Some [''Export''],
     Some [''Serie'', ''Probe'', [], ''Wdh'', [], [], [], ''__proto__'', ''ICCa2.1''],
     Some [''S1'', ''P1'', [], ''1'', [], [], [], ''1,5'', ''2,5'']]"

definition proto_dataset :: ParsedDataset where
  "proto_dataset =
    \<lparr>fileName = ''f.csv'', uploadDate = 0, resultHeaders = [''ICCa2.1'', ''__proto__''],
     data = [\<lparr>row_id = ''row-2'', seriesId = ''S1'', sampleId = ''P1'', isRepeat = False,
              rawRepeatValue = ''1'', results = [''ICCa2.1'' \<mapsto> ''2,5'']\<rparr>]\<rparr>"

section \<open>Numbers\<close>

text \<open>
  A number of the source is an IEEE 754 binary64 value. It is modelled by its exact
  value: not-a-number, the two infinities, or a rational. The two zeros are one value;
  they differ only in the sign of a quotient by zero and in printing, and the code below
  neither divides by zero nor is its printing modelled.
\<close>

datatype number = NaN | NegInf | Fin rat | PosInf

definition isNaN :: "number \<Rightarrow> bool" where
  "isNaN x = (x = NaN)"

text \<open>
  Rounding a rational to binary64, to nearest with ties to even. \<open>ilog2 a\<close> is the
  binary exponent of a positive \<open>a\<close>, the \<open>e\<close> with \<open>2\<^sup>e \<le> a < 2\<^sup>e\<^sup>+\<^sup>1\<close>. Below
  \<open>2\<^sup>-\<^sup>1\<^sup>0\<^sup>2\<^sup>2\<close> the grid is the one of the subnormal numbers; a result of
  exponent 1024 or more is an infinity.
\<close>

definition ilog2 :: "rat \<Rightarrow> int" where
  "ilog2 a = (if 1 \<le> a then bitlen \<lfloor>a\<rfloor> - 1 else - bitlen (\<lceil>1 / a\<rceil> - 1))"

definition roundHalfEven :: "rat \<Rightarrow> int" where
  "roundHalfEven x = (let f = \<lfloor>x\<rfloor>; d = x - of_int f in
     if d < 1 / 2 then f else if 1 / 2 < d then f + 1 else if even f then f else f + 1)"

definition fl_pos :: "rat \<Rightarrow> rat" where
  "fl_pos a = (let e = max (ilog2 a) (- 1022); u = 2 powi (e - 52)
               in of_int (roundHalfEven (a / u)) * u)"

definition fl :: "rat \<Rightarrow> number" where
  "fl x = (if x = 0 then Fin 0
           else let v = fl_pos \<bar>x\<bar> in
             if 1024 \<le> ilog2 v then (if 0 < x then PosInf else NegInf)
             else Fin (if 0 < x then v else - v))"

text \<open>
  The comparisons \<open><\<close>, \<open><=\<close>, \<open>>\<close> and \<open>>=\<close>: false as soon as one side is
  not-a-number.
\<close>

fun num_less :: "number \<Rightarrow> number \<Rightarrow> bool" where
  "num_less (Fin a) (Fin b) = (a < b)"
| "num_less NegInf (Fin b) = True"
| "num_less NegInf PosInf = True"
| "num_less (Fin a) PosInf = True"
| "num_less _ _ = False"

definition num_le :: "number \<Rightarrow> number \<Rightarrow> bool" where
  "num_le a b = (\<not> isNaN a \<and> \<not> isNaN b \<and> \<not> num_less b a)"

definition num_gt :: "number \<Rightarrow> number \<Rightarrow> bool" where
  "num_gt a b = num_less b a"

definition num_ge :: "number \<Rightarrow> number \<Rightarrow> bool" where
  "num_ge a b = num_le b a"

text \<open>
  The quotient \<open>a / b\<close>, correctly rounded. A zero divisor is read as the positive
  zero; the source divides only behind the guard \<open>numTheoCond !== 0\<close>.
\<close>

fun js_div :: "number \<Rightarrow> number \<Rightarrow> number" where
  "js_div (Fin a) (Fin b) =
     (if b = 0 then (if a = 0 then NaN else if 0 < a then PosInf else NegInf)
      else fl (a / b))"
| "js_div (Fin a) PosInf = Fin 0"
| "js_div (Fin a) NegInf = Fin 0"
| "js_div PosInf (Fin b) = (if b < 0 then NegInf else PosInf)"
| "js_div NegInf (Fin b) = (if b < 0 then PosInf else NegInf)"
| "js_div _ _ = NaN"

text \<open>The number literals 0.7 to 1.3 of the source.\<close>

definition num_0_7 :: number where "num_0_7 = fl (7 / 10)"
definition num_0_8 :: number where "num_0_8 = fl (8 / 10)"
definition num_0_9 :: number where "num_0_9 = fl (9 / 10)"
definition num_1_1 :: number where "num_1_1 = fl (11 / 10)"
definition num_1_2 :: number where "num_1_2 = fl (12 / 10)"
definition num_1_3 :: number where "num_1_3 = fl (13 / 10)"

text \<open>
  \<open>parseFloat\<close>: leading white space is dropped, then the longest prefix that is a
  decimal literal is read: a sign, then \<open>Infinity\<close> or digits with an optional
  fraction and an optional exponent. Without such a prefix the result is not-a-number.
  The value of the literal is rounded to binary64. (For a literal of more than twenty
  significant digits the language lets an implementation round a truncation of the
  literal instead; the model rounds the exact value, as the engines in use do.)
\<close>

definition isDigit :: "char \<Rightarrow> bool" where
  "isDigit c = (c \<in> set ''0123456789'')"

definition digitVal :: "char \<Rightarrow> int" where
  "digitVal c = of_char c - 48"

definition digitsVal :: "string \<Rightarrow> int" where
  "digitsVal ds = foldl (\<lambda>n c. 10 * n + digitVal c) 0 ds"

definition exponentPart :: "string \<Rightarrow> int" where
  "exponentPart r =
    (case r of
       [] \<Rightarrow> 0
     | c # r' \<Rightarrow>
        if c = CHR ''e'' \<or> c = CHR ''E'' then
          (case r' of
             [] \<Rightarrow> 0
           | s # d \<Rightarrow>
              if s = CHR ''-'' then - digitsVal (takeWhile isDigit d)
              else if s = CHR ''+'' then digitsVal (takeWhile isDigit d)
              else digitsVal (takeWhile isDigit r'))
        else 0)"

definition parseFloat :: "string \<Rightarrow> number" where
  "parseFloat inputString =
    (let trimmedString = dropWhile isWhiteSpace inputString;
         neg = (case trimmedString of [] \<Rightarrow> False | c # cs \<Rightarrow> c = CHR ''-'');
         unsignedPart = (case trimmedString of [] \<Rightarrow> []
                         | c # cs \<Rightarrow> if c = CHR ''-'' \<or> c = CHR ''+'' then cs else trimmedString)
     in if startsWith unsignedPart ''Infinity'' then (if neg then NegInf else PosInf)
        else
          let intDigits = takeWhile isDigit unsignedPart;
              afterInt = dropWhile isDigit unsignedPart;
              hasDot = (case afterInt of [] \<Rightarrow> False | c # cs \<Rightarrow> c = CHR ''.'');
              fracDigits = (if hasDot then takeWhile isDigit (tl afterInt) else []);
              afterFrac = (if hasDot then dropWhile isDigit (tl afterInt) else afterInt)
          in if intDigits = [] \<and> fracDigits = [] then NaN
             else
               let mv = of_int (digitsVal (intDigits @ fracDigits))
                          * 10 powi (exponentPart afterFrac - int (length fracDigits))
               in fl (if neg then - mv else mv))"

text \<open>
  \<open>parseGermanFloat\<close>: a missing or empty value is not-a-number; otherwise the first
  comma becomes a period, the string is trimmed and parsed.
\<close>

fun replaceComma :: "string \<Rightarrow> string" where
  "replaceComma [] = []"
| "replaceComma (c # cs) = (if c = CHR '','' then CHR ''.'' # cs else c # replaceComma cs)"

definition parseGermanFloat :: "string option \<Rightarrow> number" where
  "parseGermanFloat val =
    (case val of
       None \<Rightarrow> NaN
     | Some v \<Rightarrow> if v = [] then NaN else parseFloat (trim (replaceComma v)))"

text \<open>
  \<open>x.toFixed(2)\<close> of a finite \<open>x\<close> below \<open>10\<^sup>2\<^sup>1\<close> in absolute value prints the
  sign and the decimal numeral of \<open>n / 100\<close>, where \<open>n\<close> is the integer for which
  \<open>n / 100\<close> is nearest to the absolute value of \<open>x\<close>, the larger one if there are two.
  \<open>toFixed2_n\<close> is that integer. Parsing the numeral gives \<open>n / 100\<close> rounded to
  binary64. From \<open>10\<^sup>2\<^sup>1\<close> on, and for the infinities and not-a-number, \<open>toFixed\<close> prints
  the number as \<open>String\<close> does, which parses back to the number itself.
  \<open>parseFloat_toFixed2 x\<close> is \<open>parseFloat(x.toFixed(2))\<close>.
\<close>

definition toFixed2_n :: "rat \<Rightarrow> int" where
  "toFixed2_n x = \<lfloor>x * 100 + 1 / 2\<rfloor>"

definition parseFloat_toFixed2 :: "number \<Rightarrow> number" where
  "parseFloat_toFixed2 x =
    (case x of
       NaN \<Rightarrow> NaN
     | PosInf \<Rightarrow> PosInf
     | NegInf \<Rightarrow> NegInf
     | Fin q \<Rightarrow>
        if 10 ^ 21 \<le> \<bar>q\<bar> then Fin q
        else if q < 0 then fl (- (of_int (toFixed2_n (- q)) / 100))
        else fl (of_int (toFixed2_n q) / 100))"

text \<open>
  The string that \<open>x.toFixed(2)\<close> prints for a finite \<open>x\<close> below \<open>10\<^sup>2\<^sup>1\<close> in absolute
  value: the sign, the digits of \<open>n\<close> padded with zeros to at least three, and a period
  before the last two. Parsing this string gives \<open>parseFloat_toFixed2\<close>, as is shown
  below.
\<close>

definition toFixed2 :: "rat \<Rightarrow> string" where
  "toFixed2 x =
    (let s = (if x < 0 then ''-'' else []);
         n = toFixed2_n \<bar>x\<bar>;
         m = string_of_nat (nat n);
         k = length m;
         m' = (if k \<le> 2 then replicate (3 - k) CHR ''0'' @ m else m);
         k' = length m'
     in s @ take (k' - 2) m' @ ''.'' @ drop (k' - 2) m')"

section \<open>Ion-balance engine\<close>

text \<open>
  The column of a semantic name: \<open>headers.find(h => h === name) || ''\<close>; and the
  value of a row in it: \<open>col ? row.results[col] : ''\<close>, where a key that the results
  object does not have reads as \<open>undefined\<close>, here \<open>None\<close>.
\<close>

definition findCol :: "string list \<Rightarrow> (string \<Rightarrow> bool) \<Rightarrow> string" where
  "findCol headers pred = (case List.find pred headers of Some h \<Rightarrow> h | None \<Rightarrow> [])"

definition colValue :: "LabDataRow \<Rightarrow> string \<Rightarrow> string option" where
  "colValue row col = (if col \<noteq> [] then results row col else Some [])"

text \<open>\<open>val && val.trim() !== ''\<close>\<close>

definition nonBlank :: "string option \<Rightarrow> bool" where
  "nonBlank val = (case val of None \<Rightarrow> False | Some v \<Rightarrow> v \<noteq> [] \<and> trim v \<noteq> [])"

text \<open>The two comments with letters beyond ASCII, in Latin-1.\<close>

definition comment_ideal :: string where
  "comment_ideal = ''gilt nur f'' @ [CHR 0xFC] @ ''r Ideal verd'' @ [CHR 0xFC] @ ''nnte L''
                   @ [CHR 0xF6] @ ''sungen''"

definition comment_low_cond :: string where
  "comment_low_cond = ''Leitf'' @ [CHR 0xE4] @ ''higkeit < 30''"

text \<open>
  The body of the \<open>map\<close> callback of \<open>processedData\<close> (IonBalanceAnalysis), block by
  block in the order of the source: the choice of the conductivity value with its
  fallback, the rounding of the ion quotient and its validity, the conductivity quotient
  and its validity, the remark, and the automatic comment.
\<close>

definition selectCond :: "string option \<Rightarrow> string option \<Rightarrow> string \<times> bool" where
  "selectCond val31 val13 =
    (if nonBlank val31 then (the val31, False)
     else if nonBlank val13 then (the val13, True)
     else ([], False))"

definition roundQuotientIons :: "number \<Rightarrow> number" where
  "roundQuotientIons numQuotientIons =
    (if \<not> isNaN numQuotientIons then parseFloat_toFixed2 numQuotientIons else NaN)"

definition ibOk :: "number \<Rightarrow> bool" where
  "ibOk roundedQuotientIons =
    (\<not> isNaN roundedQuotientIons \<and> num_ge roundedQuotientIons num_0_9
     \<and> num_le roundedQuotientIons num_1_1)"

text \<open>The pair of \<open>isLfOk\<close> and \<open>calculatedCondQuotient\<close> after the guarded block.\<close>

definition lfCheck :: "number \<Rightarrow> number \<Rightarrow> bool \<times> number" where
  "lfCheck numCond numTheoCond =
    (if \<not> isNaN numCond \<and> \<not> isNaN numTheoCond \<and> numTheoCond \<noteq> Fin 0 then
       (let calculatedCondQuotient = js_div numCond numTheoCond in
        if num_gt numCond (Fin 20) then
          (num_ge calculatedCondQuotient num_0_9 \<and> num_le calculatedCondQuotient num_1_1,
           calculatedCondQuotient)
        else if num_ge numCond (Fin 10) then
          (num_ge calculatedCondQuotient num_0_8 \<and> num_le calculatedCondQuotient num_1_2,
           calculatedCondQuotient)
        else
          (num_ge calculatedCondQuotient num_0_7 \<and> num_le calculatedCondQuotient num_1_3,
           calculatedCondQuotient))
     else (False, NaN))"

definition remark :: "bool \<Rightarrow> number \<Rightarrow> number \<Rightarrow> bool \<Rightarrow> bool \<Rightarrow> string" where
  "remark rowIsRepeat roundedQuotientIons calculatedCondQuotient isIbOk isLfOk =
    (if \<not> rowIsRepeat then
       (let hasIbData = \<not> isNaN roundedQuotientIons;
            hasLfData = \<not> isNaN calculatedCondQuotient
        in if hasIbData \<and> hasLfData then
             (if isIbOk \<and> isLfOk then ''ok''
              else if isIbOk \<and> \<not> isLfOk then ''IB ok, LF nicht''
              else if \<not> isIbOk \<and> isLfOk then ''IB nicht ok ; LF ok''
              else ''IB nicht ok + LF nicht ok'')
           else if hasIbData \<and> \<not> hasLfData then
             (if isIbOk then ''IB ok'' else ''IB nicht ok'')
           else [])
     else [])"

definition autoCommentOf :: "bool \<Rightarrow> bool \<Rightarrow> bool \<Rightarrow> number \<Rightarrow> number \<Rightarrow> string" where
  "autoCommentOf rowIsRepeat isIbOk isLfOk numCorg numCond =
    (if \<not> rowIsRepeat then
       (let isDeviation = (\<not> isIbOk \<or> \<not> isLfOk)
        in if isDeviation \<and> \<not> isNaN numCorg \<and> num_gt numCorg (Fin 20) then ''Corg>20''
           else if isDeviation \<and> \<not> isNaN numCorg \<and> num_gt numCorg (Fin 10)
                   \<and> \<not> isNaN numCond \<and> num_less numCond (Fin 50) then ''Corg>10 LTF<50''
           else if \<not> isNaN numCond \<and> num_gt numCond (Fin 300) \<and> \<not> isLfOk then comment_ideal
           else if isDeviation \<and> \<not> isNaN numCond \<and> num_less numCond (Fin 30)
             then comment_low_cond
           else [])
     else [])"

text \<open>
  The same blocks as they stand in the loop over \<open>ibSorted\<close> of
  \<open>handleExcelExport\<close> (ReportView), the second copy of the computation, with the
  names they have there.
\<close>

definition selectCond_export :: "string option \<Rightarrow> string option \<Rightarrow> string \<times> bool" where
  "selectCond_export v31 v13 =
    (if nonBlank v31 then (the v31, False)
     else if nonBlank v13 then (the v13, True)
     else ([], False))"

definition rQI_export :: "number \<Rightarrow> number" where
  "rQI_export nQI = (if \<not> isNaN nQI then parseFloat_toFixed2 nQI else NaN)"

definition ibOk_export :: "number \<Rightarrow> bool" where
  "ibOk_export rQI = (\<not> isNaN rQI \<and> num_ge rQI num_0_9 \<and> num_le rQI num_1_1)"

definition lfCheck_export :: "number \<Rightarrow> number \<Rightarrow> bool \<times> number" where
  "lfCheck_export nCond nTheo =
    (if \<not> isNaN nCond \<and> \<not> isNaN nTheo \<and> nTheo \<noteq> Fin 0 then
       (let cQ = js_div nCond nTheo in
        if num_gt nCond (Fin 20) then (num_ge cQ num_0_9 \<and> num_le cQ num_1_1, cQ)
        else if num_ge nCond (Fin 10) then (num_ge cQ num_0_8 \<and> num_le cQ num_1_2, cQ)
        else (num_ge cQ num_0_7 \<and> num_le cQ num_1_3, cQ))
     else (False, NaN))"

definition remark_export :: "bool \<Rightarrow> number \<Rightarrow> number \<Rightarrow> bool \<Rightarrow> bool \<Rightarrow> string" where
  "remark_export rowIsRepeat rQI cQ isIbOk isLfOk =
    (if \<not> rowIsRepeat then
       (if \<not> isNaN rQI \<and> \<not> isNaN cQ then
          (if isIbOk \<and> isLfOk then ''ok''
           else if isIbOk \<and> \<not> isLfOk then ''IB ok, LF nicht''
           else if \<not> isIbOk \<and> isLfOk then ''IB nicht ok ; LF ok''
           else ''IB nicht ok + LF nicht ok'')
        else if \<not> isNaN rQI then (if isIbOk then ''IB ok'' else ''IB nicht ok'')
        else [])
     else [])"

definition autoComment_export :: "bool \<Rightarrow> bool \<Rightarrow> bool \<Rightarrow> number \<Rightarrow> number \<Rightarrow> string" where
  "autoComment_export rowIsRepeat isIbOk isLfOk numCorg nCond =
    (if \<not> rowIsRepeat then
       (let isDeviation = (\<not> isIbOk \<or> \<not> isLfOk)
        in if isDeviation \<and> \<not> isNaN numCorg \<and> num_gt numCorg (Fin 20) then ''Corg>20''
           else if isDeviation \<and> \<not> isNaN numCorg \<and> num_gt numCorg (Fin 10)
                   \<and> \<not> isNaN nCond \<and> num_less nCond (Fin 50) then ''Corg>10 LTF<50''
           else if \<not> isNaN nCond \<and> num_gt nCond (Fin 300) \<and> \<not> isLfOk then comment_ideal
           else if isDeviation \<and> \<not> isNaN nCond \<and> num_less nCond (Fin 30)
             then comment_low_cond
           else [])
     else [])"

text \<open>
  What is computed for one row: the record holds the variables of the source that the
  diagnostics are made of; the formatted strings of the display are not modelled.
\<close>

record IonDisplay =
  cond :: string
  isCondFallback :: bool
  numCorg :: number
  numCond :: number
  numTheoCond :: number
  numQuotientIons :: number
  roundedQuotientIons :: number
  isIbOk :: bool
  calculatedCondQuotient :: number
  isLfOk :: bool
  bemerkung :: string
  autoComment :: string

definition diagnose ::
  "bool \<Rightarrow> string option \<Rightarrow> string option \<Rightarrow> string option \<Rightarrow> string option
     \<Rightarrow> string option \<Rightarrow> IonDisplay" where
  "diagnose rowIsRepeat valCorg val31 val13 valQuotientIons valTheoCond =
    (let numCorg = parseGermanFloat valCorg;
         condSel = selectCond val31 val13;
         numQuotientIons = parseGermanFloat valQuotientIons;
         numTheoCond = parseGermanFloat valTheoCond;
         roundedQuotientIons = roundQuotientIons numQuotientIons;
         isIbOk = ibOk roundedQuotientIons;
         numCond = parseGermanFloat (Some (fst condSel));
         lf = lfCheck numCond numTheoCond
     in \<lparr>cond = fst condSel, isCondFallback = snd condSel, numCorg = numCorg,
         numCond = numCond, numTheoCond = numTheoCond, numQuotientIons = numQuotientIons,
         roundedQuotientIons = roundedQuotientIons, isIbOk = isIbOk,
         calculatedCondQuotient = snd lf, isLfOk = fst lf,
         bemerkung = remark rowIsRepeat roundedQuotientIons (snd lf) isIbOk (fst lf),
         autoComment = autoCommentOf rowIsRepeat isIbOk (fst lf) numCorg numCond\<rparr>)"

definition processRow :: "string list \<Rightarrow> LabDataRow \<Rightarrow> IonDisplay" where
  "processRow headers row =
    (let colCorg = findCol headers (\<lambda>h. h = ''Corg berechnet'');
         colCond31 = findCol headers (\<lambda>h. h = ''LFLFLFM3.1'');
         colCond13 = findCol headers (\<lambda>h. h = ''LFLFLFM1.3'');
         colQuotientIons = findCol headers (\<lambda>h. h = ''Quotient Kationen Anionen NFV'');
         colTheoCond = findCol headers (\<lambda>h. h = ''Theo elekt Leit (EU) korr'')
     in diagnose (isRepeat row) (colValue row colCorg) (colValue row colCond31)
          (colValue row colCond13) (colValue row colQuotientIons) (colValue row colTheoCond))"

text \<open>The row of the second copy, in \<open>handleExcelExport\<close>.\<close>

definition diagnose_export ::
  "bool \<Rightarrow> string option \<Rightarrow> string option \<Rightarrow> string option \<Rightarrow> string option
     \<Rightarrow> string option \<Rightarrow> IonDisplay" where
  "diagnose_export rowIsRepeat valC v31 v13 valQI valT =
    (let numCorg = parseGermanFloat valC;
         condSel = selectCond_export v31 v13;
         nQI = parseGermanFloat valQI;
         rQI = rQI_export nQI;
         isIbOk = ibOk_export rQI;
         nCond = parseGermanFloat (Some (fst condSel));
         nTheo = parseGermanFloat valT;
         lf = lfCheck_export nCond nTheo
     in \<lparr>cond = fst condSel, isCondFallback = snd condSel, numCorg = numCorg,
         numCond = nCond, numTheoCond = nTheo, numQuotientIons = nQI,
         roundedQuotientIons = rQI, isIbOk = isIbOk,
         calculatedCondQuotient = snd lf, isLfOk = fst lf,
         bemerkung = remark_export rowIsRepeat rQI (snd lf) isIbOk (fst lf),
         autoComment = autoComment_export rowIsRepeat isIbOk (fst lf) numCorg nCond\<rparr>)"

definition exportRow :: "string list \<Rightarrow> LabDataRow \<Rightarrow> IonDisplay" where
  "exportRow h row =
    (let colCorg = findCol h (\<lambda>x. x = ''Corg berechnet'');
         colCond31 = findCol h (\<lambda>x. x = ''LFLFLFM3.1'');
         colCond13 = findCol h (\<lambda>x. x = ''LFLFLFM1.3'');
         colQIon = findCol h (\<lambda>x. x = ''Quotient Kationen Anionen NFV'');
         colTheo = findCol h (\<lambda>x. x = ''Theo elekt Leit (EU) korr'')
     in diagnose_export (isRepeat row) (colValue row colCorg) (colValue row colCond31)
          (colValue row colCond13) (colValue row colQIon) (colValue row colTheo))"

text \<open>
  The rounding as the specification words it: to two decimals, half up on the third
  decimal digit. \<open>\<lfloor>a * 1000\<rfloor>\<close> holds the digits of \<open>a\<close> down to the third decimal; its
  last digit decides whether the hundredths go up by one. A negative number is rounded
  in its absolute value.
\<close>

definition halfUpHundredths :: "rat \<Rightarrow> int" where
  "halfUpHundredths a =
    (let k = \<lfloor>a * 1000\<rfloor> in if 5 \<le> k mod 10 then k div 10 + 1 else k div 10)"

definition roundHalfUp2 :: "rat \<Rightarrow> rat" where
  "roundHalfUp2 q = (if q < 0 then - (of_int (halfUpHundredths (- q)) / 100)
                     else of_int (halfUpHundredths q) / 100)"

text \<open>
  Rows for the examples: the headers of the semantic columns, and a row made of a
  repeat flag and the values of organic carbon, conductivity (column 3.1), ion quotient
  and theoretical conductivity.
\<close>

definition ionHeaders :: "string list" where
  "ionHeaders = [''Corg berechnet'', ''LFLFLFM1.3'', ''LFLFLFM3.1'',
                 ''Quotient Kationen Anionen NFV'', ''Theo elekt Leit (EU) korr'']"

definition ionRow :: "bool \<Rightarrow> string \<Rightarrow> string \<Rightarrow> string \<Rightarrow> string \<Rightarrow> LabDataRow" where
  "ionRow rep vCorg vCond vIons vTheo =
    \<lparr>row_id = ''row-2'', seriesId = ''S1'', sampleId = ''P1'', isRepeat = rep,
     rawRepeatValue = (if rep then ''2'' else ''1''),
     results = [''Corg berechnet'' \<mapsto> vCorg, ''LFLFLFM1.3'' \<mapsto> [], ''LFLFLFM3.1'' \<mapsto> vCond,
                ''Quotient Kationen Anionen NFV'' \<mapsto> vIons,
                ''Theo elekt Leit (EU) korr'' \<mapsto> vTheo]\<rparr>"

section \<open>Properties of the string operations\<close>

lemma startsWith_prefix: "startsWith s p \<longleftrightarrow> prefix p s"
  by (induction p arbitrary: s) (auto split: list.splits)

lemma includes_str_sublist: "includes_str s p \<longleftrightarrow> sublist p s"
  by (induction s) (auto simp: startsWith_prefix sublist_Cons_right)

lemma includes_str_mono: "sublist p p' \<Longrightarrow> includes_str s p' \<Longrightarrow> includes_str s p"
  unfolding includes_str_sublist by (rule sublist_order.order_trans)

lemma ICP_includes_IC: "includes_str h ''ICP'' \<Longrightarrow> includes_str h ''IC''"
  by (rule includes_str_mono [of _ "''ICP''"]) (simp_all add: sublist_Cons_right)

section \<open>Properties of the device classification\<close>

text \<open>
  C1. The classification is a total function that evaluates the ordered rule table on
  the upper-cased name, first match first: the pH-LF-TIT patterns, then TOC, then ICP,
  then IC, else Sonstige. The name ICPFe1.1 is ICP-OES and not IC, ICCa2.1 is IC, M3.TIT
  is pH-LF-TIT, and the copy in the selection component and the copy in the report
  component are the same function.
\<close>

theorem getDeviceGroup_first_match:
  "getDeviceGroup name = classify_spec name
   \<and> getDeviceGroup_report name = classify_spec name
   \<and> getDeviceGroup ''ICPFe1.1'' = ICP_OES
   \<and> getDeviceGroup ''ICPFe1.1'' \<noteq> IC
   \<and> getDeviceGroup ''ICCa2.1'' = IC
   \<and> getDeviceGroup ''M3.TIT'' = pH_LF_TIT"
proof -
  have spec: "getDeviceGroup n = classify_spec n" for n
    by (simp add: getDeviceGroup_def classify_spec_def classify_rules_def Let_def)
  have copy: "getDeviceGroup_report n = getDeviceGroup n" for n
    by (simp add: getDeviceGroup_def getDeviceGroup_report_def)
  have e1: "getDeviceGroup ''ICPFe1.1'' = ICP_OES"
    by (simp add: getDeviceGroup_def toUpperCase_def)
  have e2: "getDeviceGroup ''ICCa2.1'' = IC"
    by (simp add: getDeviceGroup_def toUpperCase_def)
  have e3: "getDeviceGroup ''M3.TIT'' = pH_LF_TIT"
    by (simp add: getDeviceGroup_def toUpperCase_def)
  show ?thesis
    using spec [of name] copy [of name] e1 e2 e3 by simp
qed

theorem getDeviceGroup_first_match_witness:
  "getDeviceGroup ''ICPFe1.1'' = classify_spec ''ICPFe1.1''
   \<and> classify_spec ''ICPFe1.1'' = ICP_OES
   \<and> getDeviceGroup_report ''ICPFe1.1'' = ICP_OES"
  using getDeviceGroup_first_match [of "''ICPFe1.1''"] by metis

text \<open>
  The order of the ICP and the IC test matters: a name the ICP rule takes would also
  pass the IC test, so it is never classified as IC.
\<close>

lemma ICP_never_IC:
  "includes_str (toUpperCase name) ''ICP'' \<Longrightarrow> getDeviceGroup name \<noteq> IC"
  by (simp add: getDeviceGroup_def Let_def)

section \<open>Properties of the selection model\<close>

lemma chemSetFilter_matches: "chemSetFilter t p = matchesChemSet t p"
  by (cases t) (simp_all add: matchesChemSet_def toUpperCase_def Let_def)

text \<open>
  C6. The chemical-set toggle replaces the row's whole active set by exactly the
  available base parameters of the row whose names match the fixed name list of the
  set; what was active before and does not match is gone; no other row and not the row
  selection change. When no available parameter matches, the state stays as it is.
  Choosing S while a TOC and an IC parameter are active leaves only the S parameters.
\<close>

theorem toggleChemSet_exclusive_replace:
  "(if \<exists>p \<in> set availableParams. matchesChemSet t p
    then rowParams (toggleChemSet rowId t availableParams st) rowId
           = Some {p \<in> set availableParams. matchesChemSet t p}
         \<and> (\<forall>r. r \<noteq> rowId \<longrightarrow>
               rowParams (toggleChemSet rowId t availableParams st) r = rowParams st r)
         \<and> selectedRowIds (toggleChemSet rowId t availableParams st) = selectedRowIds st
    else toggleChemSet rowId t availableParams st = st)
   \<and> rowParams
        (toggleChemSet ''row-2'' S [''TOCTOC'', ''ICCa'', ''SSO4IC'', ''SSgesICP'']
           \<lparr>selectedRowIds = {''row-2''}, rowParams = [''row-2'' \<mapsto> {''TOCTOC'', ''ICCa''}]\<rparr>)
        ''row-2''
       = Some {''SSO4IC'', ''SSgesICP''}"
proof -
  have flt: "filter (chemSetFilter t) availableParams = []
             \<longleftrightarrow> \<not> (\<exists>p \<in> set availableParams. matchesChemSet t p)"
    by (auto simp: filter_empty_conv chemSetFilter_matches)
  have st: "set (filter (chemSetFilter t) availableParams)
            = {p \<in> set availableParams. matchesChemSet t p}"
    by (auto simp: chemSetFilter_matches)
  have gen: "if \<exists>p \<in> set availableParams. matchesChemSet t p
    then rowParams (toggleChemSet rowId t availableParams st) rowId
           = Some {p \<in> set availableParams. matchesChemSet t p}
         \<and> (\<forall>r. r \<noteq> rowId \<longrightarrow>
               rowParams (toggleChemSet rowId t availableParams st) r = rowParams st r)
         \<and> selectedRowIds (toggleChemSet rowId t availableParams st) = selectedRowIds st
    else toggleChemSet rowId t availableParams st = st"
    using flt st by (simp add: toggleChemSet_def Let_def)
  have ex: "rowParams
        (toggleChemSet ''row-2'' S [''TOCTOC'', ''ICCa'', ''SSO4IC'', ''SSgesICP'']
           \<lparr>selectedRowIds = {''row-2''}, rowParams = [''row-2'' \<mapsto> {''TOCTOC'', ''ICCa''}]\<rparr>)
        ''row-2''
       = Some {''SSO4IC'', ''SSgesICP''}"
    by (simp add: toggleChemSet_def toUpperCase_def Let_def)
  from gen ex show ?thesis by (rule conjI)
qed

theorem toggleChemSet_exclusive_replace_witness:
  "rowParams (toggleChemSet ''row-5'' P [''ICCa'', ''PPO4IC'']
      \<lparr>selectedRowIds = {}, rowParams = [''row-5'' \<mapsto> {''ICCa''}, ''row-6'' \<mapsto> {''ICCa''}]\<rparr>) ''row-5''
     = Some {''PPO4IC''}
   \<and> rowParams (toggleChemSet ''row-5'' P [''ICCa'', ''PPO4IC'']
      \<lparr>selectedRowIds = {}, rowParams = [''row-5'' \<mapsto> {''ICCa''}, ''row-6'' \<mapsto> {''ICCa''}]\<rparr>) ''row-6''
     = Some {''ICCa''}
   \<and> toggleChemSet ''row-5'' N [''ICCa'', ''PPO4IC'']
      \<lparr>selectedRowIds = {}, rowParams = [''row-5'' \<mapsto> {''ICCa''}]\<rparr>
     = \<lparr>selectedRowIds = {}, rowParams = [''row-5'' \<mapsto> {''ICCa''}]\<rparr>"
proof -
  have m1: "matchesChemSet P ''PPO4IC''" "\<not> matchesChemSet P ''ICCa''"
    "\<not> matchesChemSet N ''PPO4IC''" "\<not> matchesChemSet N ''ICCa''"
    by (simp_all add: matchesChemSet_def toUpperCase_def)
  have s1: "{p \<in> set [''ICCa'', ''PPO4IC'']. matchesChemSet P p} = {''PPO4IC''}"
    using m1 by auto
  show ?thesis
    using toggleChemSet_exclusive_replace [of "[''ICCa'', ''PPO4IC'']" P "''row-5''"
        "\<lparr>selectedRowIds = {}, rowParams = [''row-5'' \<mapsto> {''ICCa''}, ''row-6'' \<mapsto> {''ICCa''}]\<rparr>"]
      toggleChemSet_exclusive_replace [of "[''ICCa'', ''PPO4IC'']" N "''row-5''"
        "\<lparr>selectedRowIds = {}, rowParams = [''row-5'' \<mapsto> {''ICCa''}]\<rparr>"]
      m1 s1
    by simp
qed

text \<open>
  C10. When the row already has an entry in \<open>rowParams\<close>, toggling one base parameter
  of that row twice gives back the state one started from; one application changes
  nothing but that row's entry: the row selection and the parameter set of every other
  row stay.
\<close>

theorem toggleRowParam_involution:
  "rowParams st rowId = Some ps \<Longrightarrow>
     toggleRowParam rowId p (toggleRowParam rowId p st) = st
     \<and> selectedRowIds (toggleRowParam rowId p st) = selectedRowIds st
     \<and> (\<forall>r. r \<noteq> rowId \<longrightarrow> rowParams (toggleRowParam rowId p st) r = rowParams st r)"
proof -
  assume e: "rowParams st rowId = Some ps"
  have upd_same: "(rowParams st)(rowId \<mapsto> ps) = rowParams st"
    using e by (simp add: map_upd_triv)
  have "toggleRowParam rowId p (toggleRowParam rowId p st) = st"
  proof (cases "p \<in> ps")
    case True
    then have "insert p (ps - {p}) = ps" by auto
    with True e upd_same show ?thesis by (simp add: toggleRowParam_def)
  next
    case False
    then have "insert p ps - {p} = ps" by auto
    with False e upd_same show ?thesis by (simp add: toggleRowParam_def)
  qed
  then show ?thesis by (simp add: toggleRowParam_def Let_def)
qed

theorem toggleRowParam_involution_witness:
  "toggleRowParam ''row-2'' ''ICCa'' (toggleRowParam ''row-2'' ''ICCa''
      \<lparr>selectedRowIds = {''row-2''}, rowParams = [''row-2'' \<mapsto> {''ICCa'', ''TOCTOC''}]\<rparr>)
    = \<lparr>selectedRowIds = {''row-2''}, rowParams = [''row-2'' \<mapsto> {''ICCa'', ''TOCTOC''}]\<rparr>
   \<and> rowParams (toggleRowParam ''row-2'' ''ICCa''
      \<lparr>selectedRowIds = {''row-2''}, rowParams = [''row-2'' \<mapsto> {''ICCa'', ''TOCTOC''}]\<rparr>) ''row-2''
    = Some {''TOCTOC''}"
proof -
  have "rowParams \<lparr>selectedRowIds = {''row-2''}, rowParams = [''row-2'' \<mapsto> {''ICCa'', ''TOCTOC''}]\<rparr>
          ''row-2'' = Some {''ICCa'', ''TOCTOC''}"
    by simp
  from toggleRowParam_involution [OF this, of "''ICCa''"]
  show ?thesis by (simp add: toggleRowParam_def)
qed

text \<open>
  Without an entry for the row the second toggle does not give the state back: it
  leaves an entry with the empty set.
\<close>

lemma toggleRowParam_twice_no_entry:
  "toggleRowParam ''row-2'' ''ICCa'' (toggleRowParam ''row-2'' ''ICCa''
      \<lparr>selectedRowIds = {}, rowParams = Map.empty\<rparr>)
    = \<lparr>selectedRowIds = {}, rowParams = [''row-2'' \<mapsto> {}]\<rparr>"
  by (simp add: toggleRowParam_def)

section \<open>Properties of the row colour\<close>

text \<open>
  C5. With an ICP parameter as the only active parameter of a row, the colour is the one
  of the rule for IC together with ICP-OES, although the set spans the group ICP-OES
  alone: the test for IC looks for the letters IC in the names, and every ICP name has
  them.
\<close>

theorem getRowColorClass_ICP_only:
  "getRowColorClass \<lparr>selectedRowIds = {''row-2''}, rowParams = [''row-2'' \<mapsto> {''ICPFe''}]\<rparr> ''row-2''
     = color_IC_ICP
   \<and> groupsOf {''ICPFe''} = {ICP_OES}
   \<and> color_IC_ICP \<noteq> color_default"
  by (simp add: getRowColorClass_def has_def groupsOf_def getDeviceGroup_report_def
      toUpperCase_def color_IC_ICP_def color_default_def)

theorem getRowColorClass_ICP_only_witness:
  "hexColor (getRowColorClass
      \<lparr>selectedRowIds = {''row-2''}, rowParams = [''row-2'' \<mapsto> {''ICPFe''}]\<rparr> ''row-2'')
     = ''CCE5FF''
   \<and> IC \<notin> groupsOf {''ICPFe''}"
  using getRowColorClass_ICP_only by (simp add: color_IC_ICP_def)

text \<open>The three examples the specification gives for the colour resolution.\<close>

lemma getRowColorClass_examples:
  "getRowColorClass \<lparr>selectedRowIds = {}, rowParams = [''r'' \<mapsto> {''PPO4IC''}]\<rparr> ''r'' = color_P"
  "getRowColorClass \<lparr>selectedRowIds = {}, rowParams = [''r'' \<mapsto> {''TOCTOC'', ''ICCa'', ''ICPFe''}]\<rparr> ''r''
     = color_ALL"
  "getRowColorClass \<lparr>selectedRowIds = {}, rowParams = [''r'' \<mapsto> {''TOCTOC'', ''ICCa'', ''TITpH''}]\<rparr> ''r''
     = color_default"
  "getRowColorClass \<lparr>selectedRowIds = {}, rowParams = [''r'' \<mapsto> {}]\<rparr> ''r'' = color_default"
  "getRowColorClass \<lparr>selectedRowIds = {}, rowParams = Map.empty\<rparr> ''r'' = color_default"
  by (simp_all add: getRowColorClass_def has_def toUpperCase_def
      color_P_def color_ALL_def color_default_def)

text \<open>
  The priority rules come first: a non-empty active set all of whose names match the P
  list has the P colour whatever groups it spans; failing that, the S list decides, then
  the N list.
\<close>

lemma getRowColorClass_priority_first:
  assumes "activeParams sel rowId \<noteq> {}"
  shows "(\<forall>c \<in> activeParams sel rowId. matchesChemSet P c)
           \<Longrightarrow> getRowColorClass sel rowId = color_P"
    and "\<not> (\<forall>c \<in> activeParams sel rowId. matchesChemSet P c)
           \<Longrightarrow> (\<forall>c \<in> activeParams sel rowId. matchesChemSet S c)
           \<Longrightarrow> getRowColorClass sel rowId = color_S"
    and "\<not> (\<forall>c \<in> activeParams sel rowId. matchesChemSet P c)
           \<Longrightarrow> \<not> (\<forall>c \<in> activeParams sel rowId. matchesChemSet S c)
           \<Longrightarrow> (\<forall>c \<in> activeParams sel rowId. matchesChemSet N c)
           \<Longrightarrow> getRowColorClass sel rowId = color_N"
proof -
  have m: "matchesChemSet P c \<longleftrightarrow>
             includes_str (toUpperCase c) ''PPO4IC'' \<or> includes_str (toUpperCase c) ''PPGESICP''"
    "matchesChemSet S c \<longleftrightarrow>
             includes_str (toUpperCase c) ''SSO4IC'' \<or> includes_str (toUpperCase c) ''SSGESICP''"
    "matchesChemSet N c \<longleftrightarrow>
             includes_str (toUpperCase c) ''NNGESTOC'' \<or> includes_str (toUpperCase c) ''NNH4IC''
             \<or> includes_str (toUpperCase c) ''NNO2IC'' \<or> includes_str (toUpperCase c) ''NNO3IC''
             \<or> includes_str (toUpperCase c) ''CGES''" for c
    using chemSetFilter_matches [of P c] chemSetFilter_matches [of S c]
      chemSetFilter_matches [of N c] by (simp_all add: Let_def)
  show "getRowColorClass sel rowId = color_P"
    if "\<forall>c \<in> activeParams sel rowId. matchesChemSet P c"
    using assms that unfolding m activeParams_def
    by (simp add: getRowColorClass_def Let_def color_P_def)
  show "getRowColorClass sel rowId = color_S"
    if "\<not> (\<forall>c \<in> activeParams sel rowId. matchesChemSet P c)"
      "\<forall>c \<in> activeParams sel rowId. matchesChemSet S c"
    using assms that unfolding m activeParams_def
    by (simp add: getRowColorClass_def Let_def color_S_def)
  show "getRowColorClass sel rowId = color_N"
    if "\<not> (\<forall>c \<in> activeParams sel rowId. matchesChemSet P c)"
      "\<not> (\<forall>c \<in> activeParams sel rowId. matchesChemSet S c)"
      "\<forall>c \<in> activeParams sel rowId. matchesChemSet N c"
    using assms that unfolding m activeParams_def
    by (simp add: getRowColorClass_def Let_def color_N_def)
qed

text \<open>
  The same test for IC gives a TOC parameter together with an ICP parameter the colour
  of all three groups, although no IC parameter is active.
\<close>

lemma getRowColorClass_TOC_ICP:
  "getRowColorClass \<lparr>selectedRowIds = {}, rowParams = [''r'' \<mapsto> {''TOCTOC'', ''ICPFe''}]\<rparr> ''r''
     = color_ALL
   \<and> groupsOf {''TOCTOC'', ''ICPFe''} = {TOC, ICP_OES}"
  by (simp add: getRowColorClass_def has_def groupsOf_def getDeviceGroup_report_def
      toUpperCase_def color_ALL_def insert_commute)

section \<open>Properties of the ingestion\<close>

lemma sorted_key_map:
  "Sorting_Algorithms.sorted (key f cmp) xs \<longleftrightarrow> Sorting_Algorithms.sorted cmp (map f xs)"
  by (induction xs rule: induct_list012) simp_all

lemma dom_foldl_upd:
  "dom (foldl (\<lambda>m mapItem. if fst mapItem = k then m else m(fst mapItem \<mapsto> g (snd mapItem))) m0 hm)
     = dom m0 \<union> (fst ` set hm - {k})"
proof (induction hm arbitrary: m0)
  case Nil
  show ?case by simp
next
  case (Cons x xs)
  show ?case
  proof (cases "fst x = k")
    case True
    with Cons show ?thesis by auto
  next
    case False
    have "dom (m0(fst x \<mapsto> g (snd x))) = insert (fst x) (dom m0)" by simp
    with Cons False show ?thesis by (auto simp del: fun_upd_apply dom_fun_upd)
  qed
qed

lemma dom_resultValues: "dom (resultValues hm row) = fst ` set hm - {''__proto__''}"
  using dom_foldl_upd [of "''__proto__''" "\<lambda>i. trimOrEmpty (cell row i)" Map.empty hm]
  by (simp add: resultValues_def)

lemma results_mkRow: "results (mkRow hm i row) = resultValues hm row"
  by (simp add: mkRow_def Let_def)

lemma results_dataLoop:
  "r \<in> set (dataLoop hm i rows) \<Longrightarrow> dom (results r) = fst ` set hm - {''__proto__''}"
proof (induction rows arbitrary: i)
  case Nil
  then show ?case by simp
next
  case (Cons row rest)
  show ?case
  proof (cases "skipRow row")
    case True
    with Cons.prems have "r \<in> set (dataLoop hm (Suc i) rest)" by simp
    then show ?thesis by (rule Cons.IH)
  next
    case False
    with Cons.prems have "r = mkRow hm i (the row) \<or> r \<in> set (dataLoop hm (Suc i) rest)"
      by simp
    then show ?thesis
    proof
      assume "r = mkRow hm i (the row)"
      then show ?thesis by (simp only: results_mkRow dom_resultValues)
    next
      assume "r \<in> set (dataLoop hm (Suc i) rest)"
      then show ?thesis by (rule Cons.IH)
    qed
  qed
qed

lemma dataLoop_append:
  "dataLoop hm i (xs @ ys) = dataLoop hm i xs @ dataLoop hm (i + length xs) ys"
  by (induction xs arbitrary: i) auto

lemmas ingest_eval =
  parseLabDataCsv_def headerMapping_def trim_def isWhiteSpace_def
  skipRow_def mkRow_def cell_def trimOrEmpty_def resultValues_def Let_def string_of_nat.simps

lemma parse_two_file:
  "parseLabDataCsv default ''f.csv'' 0 (Some two_file) = Inr two_dataset"
  by (simp add: ingest_eval two_file_def two_dataset_def fun_upd_twist)




text \<open>
  A column whose header text is \<open>__proto__\<close> is listed in \<open>resultHeaders\<close>, and no
  record has a value for it.
\<close>

lemma proto_header_no_key:
  "parseLabDataCsv default ''f.csv'' 0 (Some proto_file) = Inr proto_dataset
   \<and> resultHeaders proto_dataset = [''ICCa2.1'', ''__proto__'']
   \<and> dom (results (hd (data proto_dataset))) = {''ICCa2.1''}"
  by (simp add: ingest_eval proto_file_def proto_dataset_def)

lemma skipRow_iff: "skipRow row \<longleftrightarrow> (case row of None \<Rightarrow> True | Some r \<Rightarrow> length r < 2)"
  by (auto simp: skipRow_def split: option.splits)

text \<open>
  C9. A file with fewer than three rows, or whose header row cannot be read, is rejected
  with an error and gives no dataset. A data row that is missing or has fewer than two
  cells is skipped: the load succeeds, and the records of the rows before and after it
  are the same whatever stands in its place.
\<close>

theorem ingestion_errors_and_skipped_rows:
  "(file = None \<or> length (the file) < 3 \<or> the file ! 1 = None
      \<longrightarrow> (\<exists>e. parseLabDataCsv cmp fname now file = Inl e))
   \<and> (skipRow row \<longleftrightarrow> (case row of None \<Rightarrow> True | Some r \<Rightarrow> length r < 2))
   \<and> (2 \<le> length pre \<and> pre ! 1 = Some headerRow \<longrightarrow>
        (let hm = Sorting_Algorithms.sort (key fst cmp) (headerMapping headerRow);
             before = dataLoop hm 2 (drop 2 pre);
             after = dataLoop hm (Suc (length pre)) post
         in parseLabDataCsv cmp fname now (Some (pre @ row # post)) =
              Inr \<lparr>fileName = fname, uploadDate = now, resultHeaders = map fst hm,
                   data = before @ (if skipRow row then [] else [mkRow hm (length pre) (the row)])
                          @ after\<rparr>))"
proof -
  have err: "\<exists>e. parseLabDataCsv cmp fname now file = Inl e"
    if "file = None \<or> length (the file) < 3 \<or> the file ! 1 = None"
    using that by (auto simp: parseLabDataCsv_def split: option.splits)
  have ok: "parseLabDataCsv cmp fname now (Some (pre @ row # post)) =
      Inr \<lparr>fileName = fname, uploadDate = now,
           resultHeaders = map fst (Sorting_Algorithms.sort (key fst cmp) (headerMapping headerRow)),
           data = dataLoop (Sorting_Algorithms.sort (key fst cmp) (headerMapping headerRow)) 2 (drop 2 pre)
                  @ (if skipRow row then []
                     else [mkRow (Sorting_Algorithms.sort (key fst cmp) (headerMapping headerRow))
                             (length pre) (the row)])
                  @ dataLoop (Sorting_Algorithms.sort (key fst cmp) (headerMapping headerRow))
                      (Suc (length pre)) post\<rparr>"
    if p: "2 \<le> length pre" "pre ! 1 = Some headerRow"
  proof -
    have h: "(pre @ row # post) ! 1 = Some headerRow"
      using p by (simp add: nth_append)
    have d: "drop 2 (pre @ row # post) = drop 2 pre @ row # post"
      using p by simp
    have l: "2 + length (drop 2 pre) = length pre"
      using p by simp
    show ?thesis
      using p h d l by (simp add: parseLabDataCsv_def Let_def dataLoop_append)
  qed
  from err ok skipRow_iff [of row] show ?thesis
    unfolding Let_def by blast
qed

theorem ingestion_errors_and_skipped_rows_witness:
  "(\<exists>e. parseLabDataCsv default ''f.csv'' 0 (Some [Some [''a''], Some [''b'']]) = Inl e)
   \<and> skipRow (Some [[]])
   \<and> parseLabDataCsv default ''f.csv'' 0
        (Some ([Some [''Export''], Some [''Serie'']] @ Some [[]] # [Some [''S1'', ''P2'']]))
      = Inr \<lparr>fileName = ''f.csv'', uploadDate = 0, resultHeaders = [],
              data = [\<lparr>row_id = ''row-3'', seriesId = ''S1'', sampleId = ''P2'', isRepeat = False,
                       rawRepeatValue = [], results = Map.empty\<rparr>]\<rparr>"
  using ingestion_errors_and_skipped_rows [of "Some [Some [''a''], Some [''b'']]" default "''f.csv''" 0
      "Some [[]]" "[Some [''Export''], Some [''Serie'']]" "[''Serie'']" "[Some [''S1'', ''P2'']]"]
  by (simp add: ingest_eval)

section \<open>Properties of the rounding to binary64\<close>

text \<open>
  The binary exponent is what its name says, and it grows with its argument.
\<close>

lemma ilog2_bounds:
  assumes "0 < a"
  shows "2 powi (ilog2 a) \<le> a \<and> a < 2 powi (ilog2 a + 1)"
proof (cases "1 \<le> a")
  case True
  define k where "k = \<lfloor>a\<rfloor>"
  define b where "b = bitlen k"
  from True have k: "1 \<le> k" by (simp add: k_def)
  then have bb: "2 ^ nat (b - 1) \<le> k \<and> k < 2 ^ nat b"
    unfolding b_def using bitlen_bounds [of k] by simp
  have b1: "1 \<le> b"
  proof (rule ccontr)
    assume "\<not> 1 \<le> b"
    then have "nat b = 0" by simp
    with bb k show False by simp
  qed
  have e: "ilog2 a = b - 1"
    using True by (simp add: ilog2_def k_def b_def)
  have lo: "(2::rat) powi (b - 1) \<le> a"
  proof -
    have "(2::rat) powi (b - 1) = of_int (2 ^ nat (b - 1))"
      using b1 by (simp add: power_int_nonneg_exp)
    also have "\<dots> \<le> of_int k" using bb by (simp only: of_int_le_iff)
    also have "\<dots> \<le> a" by (simp add: k_def)
    finally show ?thesis .
  qed
  have hi: "a < (2::rat) powi b"
  proof -
    have "a < of_int k + 1" using floor_correct [of a] by (simp add: k_def)
    also have "\<dots> = of_int (k + 1)" by simp
    also have "\<dots> \<le> of_int (2 ^ nat b)"
      using bb by (simp only: of_int_le_iff) simp
    also have "\<dots> = (2::rat) powi b"
      using b1 by (simp add: power_int_nonneg_exp)
    finally show ?thesis .
  qed
  from lo hi e show ?thesis by simp
next
  case False
  define c where "c = \<lceil>1 / a\<rceil>"
  define k where "k = c - 1"
  define b where "b = bitlen k"
  from False assms have inv: "1 < 1 / a" by (simp add: field_simps)
  then have c2: "2 \<le> c" unfolding c_def by (simp add: le_ceiling_iff)
  then have k: "1 \<le> k" by (simp add: k_def)
  then have bb: "2 ^ nat (b - 1) \<le> k \<and> k < 2 ^ nat b"
    unfolding b_def using bitlen_bounds [of k] by simp
  have b1: "1 \<le> b"
  proof (rule ccontr)
    assume "\<not> 1 \<le> b"
    then have "nat b = 0" by simp
    with bb k show False by simp
  qed
  have e: "ilog2 a = - b"
    using False by (simp add: ilog2_def k_def b_def c_def)
  have p: "(2::rat) powi (- b) = 1 / 2 ^ nat b"
    using b1 by (simp add: power_int_minus power_int_nonneg_exp field_simps)
  have p1: "(2::rat) powi (- b + 1) = 1 / 2 ^ nat (b - 1)"
  proof -
    have "(2::rat) powi (- b + 1) = 2 powi (- (b - 1))" by simp
    also have "\<dots> = 1 / 2 ^ nat (b - 1)"
      using b1 by (simp only: power_int_minus power_int_nonneg_exp) (simp add: field_simps)
    finally show ?thesis .
  qed
  have lo: "1 / 2 ^ nat b \<le> a"
  proof -
    have "1 / a \<le> of_int c" by (simp add: c_def)
    also have "\<dots> = of_int (k + 1)" by (simp add: k_def)
    also have "\<dots> \<le> of_int (2 ^ nat b)"
      using bb by (simp only: of_int_le_iff) simp
    finally have "1 / a \<le> 2 ^ nat b" by simp
    with assms show ?thesis by (simp add: field_simps)
  qed
  have hi: "a < 1 / 2 ^ nat (b - 1)"
  proof -
    have "(2::rat) ^ nat (b - 1) = of_int (2 ^ nat (b - 1))" by simp
    also have "\<dots> \<le> of_int k" using bb by (simp only: of_int_le_iff)
    also have "\<dots> < 1 / a"
      unfolding k_def c_def using ceiling_correct [of "1 / a"] by simp
    finally have "(2::rat) ^ nat (b - 1) < 1 / a" .
    with assms show ?thesis by (simp add: field_simps)
  qed
  from lo hi e p p1 show ?thesis by simp
qed


lemma ilog2_mono:
  assumes "0 < a" "a \<le> b"
  shows "ilog2 a \<le> ilog2 b"
proof (rule ccontr)
  assume "\<not> ilog2 a \<le> ilog2 b"
  then have "ilog2 b + 1 \<le> ilog2 a" by simp
  then have "(2::rat) powi (ilog2 b + 1) \<le> 2 powi (ilog2 a)"
    by (intro power_int_increasing) simp_all
  also have "\<dots> \<le> a" using ilog2_bounds [OF assms(1)] by simp
  also have "\<dots> \<le> b" by (rule assms(2))
  also have "\<dots> < 2 powi (ilog2 b + 1)"
    using ilog2_bounds [of b] assms by simp
  finally show False by simp
qed

lemma ilog2_ge_iff:
  assumes "0 < a"
  shows "k \<le> ilog2 a \<longleftrightarrow> 2 powi k \<le> a"
proof
  assume "k \<le> ilog2 a"
  then have "(2::rat) powi k \<le> 2 powi (ilog2 a)"
    by (intro power_int_increasing) simp_all
  also have "\<dots> \<le> a" using ilog2_bounds [OF assms] by simp
  finally show "2 powi k \<le> a" .
next
  assume h: "2 powi k \<le> a"
  show "k \<le> ilog2 a"
  proof (rule ccontr)
    assume "\<not> k \<le> ilog2 a"
    then have "ilog2 a + 1 \<le> k" by simp
    then have "(2::rat) powi (ilog2 a + 1) \<le> 2 powi k"
      by (intro power_int_increasing) simp_all
    with h ilog2_bounds [OF assms] show False by simp
  qed
qed

text \<open>
  Rounding to an integer is monotone and leaves integers alone. With it, rounding a
  positive rational to 53 significant bits stays within the binade of its argument and
  is monotone, also across binades and into the subnormal range.
\<close>

lemma roundHalfEven_bounds: "\<lfloor>x\<rfloor> \<le> roundHalfEven x \<and> roundHalfEven x \<le> \<lfloor>x\<rfloor> + 1"
  by (simp add: roundHalfEven_def Let_def)

lemma roundHalfEven_of_int [simp]: "roundHalfEven (of_int k) = k"
  by (simp add: roundHalfEven_def Let_def)

lemma roundHalfEven_mono:
  assumes "x \<le> y"
  shows "roundHalfEven x \<le> roundHalfEven y"
proof (cases "\<lfloor>x\<rfloor> = \<lfloor>y\<rfloor>")
  case True
  with assms show ?thesis
    by (simp add: roundHalfEven_def Let_def)
next
  case False
  with assms have "\<lfloor>x\<rfloor> + 1 \<le> \<lfloor>y\<rfloor>"
    using floor_mono [of x y] by simp
  with roundHalfEven_bounds [of x] roundHalfEven_bounds [of y] show ?thesis
    by linarith
qed

lemma fl_pos_eq:
  "fl_pos a = of_int (roundHalfEven (a / 2 powi (max (ilog2 a) (- 1022) - 52)))
                * 2 powi (max (ilog2 a) (- 1022) - 52)"
  by (simp add: fl_pos_def Let_def)

lemma powi_split_53: "(2::rat) powi (e + 1) = of_int (2 ^ 53) * 2 powi (e - 52)"
proof -
  have "e + 1 = 53 + (e - 52)" by simp
  then have "(2::rat) powi (e + 1) = 2 powi (53 + (e - 52))" by (simp only:)
  also have "\<dots> = 2 powi 53 * 2 powi (e - 52)"
    by (rule power_int_add) simp
  finally show ?thesis by simp
qed

lemma powi_split_52: "(2::rat) powi e = of_int (2 ^ 52) * 2 powi (e - 52)"
proof -
  have "e = 52 + (e - 52)" by simp
  then have "(2::rat) powi e = 2 powi (52 + (e - 52))" by (simp only:)
  also have "\<dots> = 2 powi 52 * 2 powi (e - 52)"
    by (rule power_int_add) simp
  finally show ?thesis by simp
qed

lemma fl_pos_upper:
  assumes "0 < a"
  shows "fl_pos a \<le> 2 powi (max (ilog2 a) (- 1022) + 1)"
proof -
  define e where "e = max (ilog2 a) (- 1022)"
  define u where "u = (2::rat) powi (e - 52)"
  have u0: "0 < u" by (simp add: u_def)
  have "a < 2 powi (ilog2 a + 1)" using ilog2_bounds [OF assms] by simp
  also have "\<dots> \<le> 2 powi (e + 1)"
    by (intro power_int_increasing) (simp_all add: e_def)
  also have "\<dots> = of_int (2 ^ 53) * u" unfolding u_def by (rule powi_split_53)
  finally have "a / u \<le> of_int (2 ^ 53)"
    using u0 by (simp add: field_simps)
  then have "roundHalfEven (a / u) \<le> roundHalfEven (of_int (2 ^ 53))"
    by (rule roundHalfEven_mono)
  then have "roundHalfEven (a / u) \<le> 2 ^ 53" by (simp only: roundHalfEven_of_int)
  then have "(of_int (roundHalfEven (a / u)) :: rat) \<le> of_int (2 ^ 53)"
    by (simp only: of_int_le_iff)
  then have "of_int (roundHalfEven (a / u)) * u \<le> of_int (2 ^ 53) * u"
    using u0 by (simp only: mult_le_cancel_right_pos)
  moreover have "fl_pos a = of_int (roundHalfEven (a / u)) * u"
    by (simp add: fl_pos_def Let_def e_def u_def)
  moreover have "(2::rat) powi (max (ilog2 a) (- 1022) + 1) = of_int (2 ^ 53) * u"
    unfolding u_def e_def by (rule powi_split_53)
  ultimately show ?thesis by (simp only:)
qed

lemma fl_pos_lower:
  assumes "0 < a" "- 1022 \<le> ilog2 a"
  shows "2 powi (ilog2 a) \<le> fl_pos a"
proof -
  define e where "e = ilog2 a"
  define u where "u = (2::rat) powi (e - 52)"
  have m: "max (ilog2 a) (- 1022) = e" using assms(2) by (simp add: e_def)
  have u0: "0 < u" by (simp add: u_def)
  have "of_int (2 ^ 52) * u = 2 powi e" unfolding u_def by (rule powi_split_52 [symmetric])
  also have "\<dots> \<le> a" using ilog2_bounds [OF assms(1)] by (simp add: e_def)
  finally have "of_int (2 ^ 52) \<le> a / u"
    using u0 by (simp add: field_simps)
  then have "roundHalfEven (of_int (2 ^ 52)) \<le> roundHalfEven (a / u)"
    by (rule roundHalfEven_mono)
  then have "2 ^ 52 \<le> roundHalfEven (a / u)" by (simp only: roundHalfEven_of_int)
  then have "(of_int (2 ^ 52) :: rat) \<le> of_int (roundHalfEven (a / u))"
    by (simp only: of_int_le_iff)
  then have "of_int (2 ^ 52) * u \<le> of_int (roundHalfEven (a / u)) * u"
    using u0 by (simp only: mult_le_cancel_right_pos)
  moreover have "fl_pos a = of_int (roundHalfEven (a / u)) * u"
    using assms(2) by (simp add: fl_pos_def Let_def e_def u_def max_def)
  moreover have "(2::rat) powi (ilog2 a) = of_int (2 ^ 52) * u"
    unfolding u_def e_def by (rule powi_split_52)
  ultimately show ?thesis by (simp only:)
qed

lemma fl_pos_nonneg:
  assumes "0 \<le> a"
  shows "0 \<le> fl_pos a"
proof -
  have "0 \<le> a / 2 powi (max (ilog2 a) (- 1022) - 52)"
    using assms by simp
  then have "0 \<le> \<lfloor>a / 2 powi (max (ilog2 a) (- 1022) - 52)\<rfloor>" by simp
  with roundHalfEven_bounds [of "a / 2 powi (max (ilog2 a) (- 1022) - 52)"]
  have "0 \<le> roundHalfEven (a / 2 powi (max (ilog2 a) (- 1022) - 52))" by linarith
  then show ?thesis unfolding fl_pos_eq by simp
qed

lemma fl_pos_mono:
  assumes "0 < a" "a \<le> b"
  shows "fl_pos a \<le> fl_pos b"
proof -
  define ea where "ea = max (ilog2 a) (- 1022)"
  define eb where "eb = max (ilog2 b) (- 1022)"
  have b0: "0 < b" using assms by simp
  have le: "ea \<le> eb"
    using ilog2_mono [OF assms] by (simp add: ea_def eb_def)
  show ?thesis
  proof (cases "ea = eb")
    case True
    define u where "u = (2::rat) powi (ea - 52)"
    have u0: "0 < u" by (simp add: u_def)
    have "a / u \<le> b / u" using assms u0 by (simp add: divide_right_mono)
    then have "roundHalfEven (a / u) \<le> roundHalfEven (b / u)"
      by (rule roundHalfEven_mono)
    then have "(of_int (roundHalfEven (a / u)) :: rat) \<le> of_int (roundHalfEven (b / u))"
      by (simp only: of_int_le_iff)
    then have "of_int (roundHalfEven (a / u)) * u \<le> of_int (roundHalfEven (b / u)) * u"
      using u0 by (simp only: mult_le_cancel_right_pos)
    then show ?thesis
      unfolding fl_pos_eq ea_def [symmetric] eb_def [symmetric] True [symmetric] u_def [symmetric] .
  next
    case False
    with le have lt: "ea + 1 \<le> eb" by simp
    then have ib: "eb = ilog2 b" "- 1022 \<le> ilog2 b"
      by (simp_all add: ea_def eb_def)
    have "fl_pos a \<le> 2 powi (ea + 1)"
      unfolding ea_def by (rule fl_pos_upper [OF assms(1)])
    also have "\<dots> \<le> 2 powi eb"
      using lt by (intro power_int_increasing) simp_all
    also have "\<dots> \<le> fl_pos b"
      unfolding ib(1) by (rule fl_pos_lower [OF b0 ib(2)])
    finally show ?thesis .
  qed
qed

text \<open>
  Rounding to binary64 is monotone on all rationals, overflow to the infinities
  included, and never gives not-a-number.
\<close>

lemma ilog2_zero [simp]: "ilog2 0 = 0"
  by (simp add: ilog2_def bitlen_def floorlog_def)

lemma overflow_mono:
  assumes "0 \<le> v" "v \<le> w" "1024 \<le> ilog2 v"
  shows "1024 \<le> ilog2 w"
proof -
  from assms(3) have "v \<noteq> 0" by auto
  with assms(1) have "0 < v" by simp
  from ilog2_mono [OF this assms(2)] assms(3) show ?thesis by simp
qed

lemma fl_cases:
  "fl x = (if x = 0 then Fin 0
           else if 0 < x then (if 1024 \<le> ilog2 (fl_pos x) then PosInf else Fin (fl_pos x))
           else (if 1024 \<le> ilog2 (fl_pos (- x)) then NegInf else Fin (- fl_pos (- x))))"
  by (simp add: fl_def Let_def abs_if)

lemma fl_mono:
  assumes "x \<le> y"
  shows "num_le (fl x) (fl y)"
proof -
  consider "x = 0" | "0 < x" | "x < 0" by linarith
  then show ?thesis
  proof cases
    case 1
    with assms fl_pos_nonneg [of y] show ?thesis
      by (auto simp: fl_cases num_le_def isNaN_def)
  next
    case 2
    with assms have y: "0 < y" by simp
    from fl_pos_mono [OF 2 assms] have m: "fl_pos x \<le> fl_pos y" .
    have n: "0 \<le> fl_pos x" using 2 by (simp add: fl_pos_nonneg)
    from overflow_mono [OF n m] 2 y m show ?thesis
      by (auto simp: fl_cases num_le_def isNaN_def)
  next
    case 3
    consider "y = 0" | "0 < y" | "y < 0" by linarith
    then show ?thesis
    proof cases
      case 1
      with 3 fl_pos_nonneg [of "- x"] show ?thesis
        by (auto simp: fl_cases num_le_def isNaN_def)
    next
      case 2
      with 3 fl_pos_nonneg [of "- x"] fl_pos_nonneg [of y] show ?thesis
        by (auto simp: fl_cases num_le_def isNaN_def)
    next
      case y: 3
      then have p: "0 < - y" "- y \<le> - x" using assms by simp_all
      from fl_pos_mono [OF p] have m: "fl_pos (- y) \<le> fl_pos (- x)" .
      have n: "0 \<le> fl_pos (- y)" using p(1) by (simp add: fl_pos_nonneg)
      from overflow_mono [OF n m] 3 y m show ?thesis
        by (auto simp: fl_cases num_le_def isNaN_def)
    qed
  qed
qed

lemma fl_not_NaN [simp]: "fl x \<noteq> NaN"
  by (simp add: fl_cases)

lemma num_le_trans: "num_le a b \<Longrightarrow> num_le b c \<Longrightarrow> num_le a c"
  by (cases a; cases b; cases c) (auto simp: num_le_def isNaN_def)

lemma num_le_Fin [simp]: "num_le (Fin a) (Fin b) \<longleftrightarrow> a \<le> b"
  by (auto simp: num_le_def isNaN_def)

text \<open>
  Where rounding to the nearest integer reaches an integer \<open>k\<close>: from the midpoint below
  \<open>k\<close> on, the midpoint included if and only if \<open>k\<close> is even.
\<close>

lemma roundHalfEven_ge_iff:
  "k \<le> roundHalfEven y \<longleftrightarrow> (if even k then of_int k - 1 / 2 \<le> y else of_int k - 1 / 2 < y)"
proof -
  define f where "f = \<lfloor>y\<rfloor>"
  define d where "d = y - of_int f"
  have d01: "0 \<le> d" "d < 1"
    using floor_correct [of y] by (simp_all add: d_def f_def)
  have y: "y = of_int f + d" by (simp add: d_def)
  have r: "roundHalfEven y = (if d < 1 / 2 then f else if 1 / 2 < d then f + 1
                              else if even f then f else f + 1)"
    by (simp add: roundHalfEven_def Let_def f_def d_def)
  consider "k \<le> f" | "k = f + 1" | "f + 2 \<le> k" by linarith
  then show ?thesis
  proof cases
    case 1
    then have "of_int k \<le> (of_int f :: rat)" by simp
    with 1 d01 show ?thesis unfolding r by (auto simp: y)
  next
    case 2
    then have k: "(of_int k :: rat) = of_int f + 1" by simp
    from 2 have ev: "even k \<longleftrightarrow> odd f" by simp
    show ?thesis unfolding r using d01 by (auto simp: y k ev 2)
  next
    case 3
    then have "(of_int f :: rat) + 2 \<le> of_int k"
      by (metis of_int_le_iff of_int_add of_int_numeral)
    with 3 d01 show ?thesis unfolding r by (auto simp: y)
  qed
qed

lemma roundHalfEven_le_iff:
  "roundHalfEven y \<le> k \<longleftrightarrow> (if even k then y \<le> of_int k + 1 / 2 else y < of_int k + 1 / 2)"
proof -
  have "roundHalfEven y \<le> k \<longleftrightarrow> \<not> (k + 1 \<le> roundHalfEven y)" by linarith
  also have "\<dots> \<longleftrightarrow> (if even k then y \<le> of_int k + 1 / 2 else y < of_int k + 1 / 2)"
    unfolding roundHalfEven_ge_iff [of "k + 1" y] by auto
  finally show ?thesis .
qed

text \<open>
  Between 1/2 and 1 the binary64 numbers are the multiples of \<open>2\<^sup>-\<^sup>5\<^sup>3\<close>, between 1 and 2
  those of \<open>2\<^sup>-\<^sup>5\<^sup>2\<close>.
\<close>

lemma ilog2_eq:
  assumes "2 powi e \<le> a" "a < 2 powi (e + 1)"
  shows "ilog2 a = e"
proof -
  have "(0::rat) < 2 powi e" by simp
  with assms(1) have pos: "0 < a" by linarith
  have "e \<le> ilog2 a" using ilog2_ge_iff [OF pos, of e] assms(1) by simp
  moreover have "\<not> e + 1 \<le> ilog2 a" using ilog2_ge_iff [OF pos, of "e + 1"] assms(2) by simp
  ultimately show ?thesis by simp
qed

lemma fl_half_one:
  assumes "1 / 2 \<le> x" "x < 1"
  shows "fl x = Fin (of_int (roundHalfEven (x * 2 ^ 53)) / 2 ^ 53)"
proof -
  have e: "ilog2 x = - 1"
    using assms by (intro ilog2_eq) (simp_all add: power_int_minus)
  have pos: "0 < x" using assms by simp
  have p: "(2::rat) powi (- 53) = 1 / 2 ^ 53"
    by (simp add: power_int_minus field_simps)
  have v: "fl_pos x = of_int (roundHalfEven (x * 2 ^ 53)) / 2 ^ 53"
    by (simp add: fl_pos_eq e p)
  have up: "fl_pos x \<le> 1"
    using fl_pos_upper [OF pos] by (simp add: e)
  have lo: "1 / 2 \<le> fl_pos x"
    using fl_pos_lower [OF pos] by (simp add: e power_int_minus)
  have "\<not> 1024 \<le> ilog2 (fl_pos x)"
  proof
    assume "1024 \<le> ilog2 (fl_pos x)"
    then have "(2::rat) powi 1024 \<le> fl_pos x"
      using ilog2_ge_iff [of "fl_pos x" 1024] lo by simp
    moreover have "(1::rat) < 2 powi 1024" by simp
    ultimately show False using up by simp
  qed
  with pos v show ?thesis by (simp add: fl_def Let_def)
qed

lemma fl_one_two:
  assumes "1 \<le> x" "x < 2"
  shows "fl x = Fin (of_int (roundHalfEven (x * 2 ^ 52)) / 2 ^ 52)"
proof -
  have e: "ilog2 x = 0"
    using assms by (intro ilog2_eq) simp_all
  have pos: "0 < x" using assms by simp
  have p: "(2::rat) powi (- 52) = 1 / 2 ^ 52"
    by (simp add: power_int_minus field_simps)
  have v: "fl_pos x = of_int (roundHalfEven (x * 2 ^ 52)) / 2 ^ 52"
    by (simp add: fl_pos_eq e p)
  have up: "fl_pos x \<le> 2"
    using fl_pos_upper [OF pos] by (simp add: e)
  have lo: "1 \<le> fl_pos x"
    using fl_pos_lower [OF pos] by (simp add: e)
  have "\<not> 1024 \<le> ilog2 (fl_pos x)"
  proof
    assume "1024 \<le> ilog2 (fl_pos x)"
    then have "(2::rat) powi 1024 \<le> fl_pos x"
      using ilog2_ge_iff [of "fl_pos x" 1024] lo by simp
    moreover have "(2::rat) < 2 powi 1024" by simp
    ultimately show False using up by simp
  qed
  with pos v show ?thesis by (simp add: fl_def Let_def)
qed


text \<open>
  Hence the rationals whose rounding is at least, or at most, a given binary64 number
  form a half-line that ends at the midpoint between that number and its neighbour.
\<close>

lemma fl_half: "fl (1 / 2) = Fin (1 / 2)"
  by code_simp

lemma fl_one: "fl 1 = Fin 1"
  by code_simp

lemma fl_two: "fl 2 = Fin 2"
  by code_simp

lemma fl_ge_half_one:
  fixes k :: int
  assumes "2 ^ 52 < k" "k < 2 ^ 53"
  shows "num_le (Fin (of_int k / 2 ^ 53)) (fl x)
     \<longleftrightarrow> (if even k then (of_int k - 1 / 2) / 2 ^ 53 \<le> x else (of_int k - 1 / 2) / 2 ^ 53 < x)"
proof -
  have k1: "(2::rat) ^ 52 + 1 \<le> of_int k"
  proof -
    from assms(1) have "2 ^ 52 + 1 \<le> k" by simp
    then have "(of_int (2 ^ 52 + 1) :: rat) \<le> of_int k" by (simp only: of_int_le_iff)
    then show ?thesis by simp
  qed
  have k2: "(of_int k :: rat) < 2 ^ 53"
  proof -
    from assms(2) have "(of_int k :: rat) < of_int (2 ^ 53)" by (simp only: of_int_less_iff)
    then show ?thesis by simp
  qed
  consider "x < 1 / 2" | "1 / 2 \<le> x" "x < 1" | "1 \<le> x" by linarith
  then show ?thesis
  proof cases
    case 1
    then have m: "num_le (fl x) (Fin (1 / 2))"
      using fl_mono [of x "1 / 2"] by (simp add: fl_half)
    have l: "\<not> num_le (Fin (of_int k / 2 ^ 53)) (fl x)"
    proof
      assume "num_le (Fin (of_int k / 2 ^ 53)) (fl x)"
      from num_le_trans [OF this m] have "of_int k / 2 ^ 53 \<le> (1 / 2 :: rat)" by simp
      with k1 show False by (simp add: field_simps)
    qed
    have r: "x < (of_int k - 1 / 2) / 2 ^ 53"
      using 1 k1 by (simp add: field_simps)
    from l r show ?thesis by auto
  next
    case 3
    then have m: "num_le (Fin 1) (fl x)"
      using fl_mono [of 1 x] by (simp add: fl_one)
    have "num_le (Fin (of_int k / 2 ^ 53)) (Fin 1)"
      using k2 by (simp add: field_simps)
    from num_le_trans [OF this m] have l: "num_le (Fin (of_int k / 2 ^ 53)) (fl x)" .
    have r: "(of_int k - 1 / 2) / 2 ^ 53 < x"
      using 3 k2 by (simp add: field_simps)
    from l r show ?thesis by auto
  next
    case 2
    have "num_le (Fin (of_int k / 2 ^ 53)) (fl x) \<longleftrightarrow> k \<le> roundHalfEven (x * 2 ^ 53)"
      by (simp add: fl_half_one [OF 2] divide_le_cancel)
    also have "\<dots> \<longleftrightarrow> (if even k then of_int k - 1 / 2 \<le> x * 2 ^ 53
                         else of_int k - 1 / 2 < x * 2 ^ 53)"
      by (rule roundHalfEven_ge_iff)
    also have "\<dots> \<longleftrightarrow> (if even k then (of_int k - 1 / 2) / 2 ^ 53 \<le> x
                         else (of_int k - 1 / 2) / 2 ^ 53 < x)"
      by (simp add: field_simps)
    finally show ?thesis .
  qed
qed

lemma fl_le_one_two:
  fixes k :: int
  assumes "2 ^ 52 \<le> k" "k < 2 ^ 53 - 1"
  shows "num_le (fl x) (Fin (of_int k / 2 ^ 52))
     \<longleftrightarrow> (if even k then x \<le> (of_int k + 1 / 2) / 2 ^ 52 else x < (of_int k + 1 / 2) / 2 ^ 52)"
proof -
  have k1: "(2::rat) ^ 52 \<le> of_int k"
  proof -
    from assms(1) have "(of_int (2 ^ 52) :: rat) \<le> of_int k" by (simp only: of_int_le_iff)
    then show ?thesis by simp
  qed
  have k2: "(of_int k :: rat) + 1 < 2 ^ 53"
  proof -
    from assms(2) have "k + 1 < 2 ^ 53" by simp
    then have "(of_int (k + 1) :: rat) < of_int (2 ^ 53)" by (simp only: of_int_less_iff)
    then show ?thesis by simp
  qed
  consider "x < 1" | "1 \<le> x" "x < 2" | "2 \<le> x" by linarith
  then show ?thesis
  proof cases
    case 1
    then have m: "num_le (fl x) (Fin 1)"
      using fl_mono [of x 1] by (simp add: fl_one)
    have "num_le (Fin 1) (Fin (of_int k / 2 ^ 52))"
      using k1 by (simp add: field_simps)
    from num_le_trans [OF m this] have l: "num_le (fl x) (Fin (of_int k / 2 ^ 52))" .
    have r: "x < (of_int k + 1 / 2) / 2 ^ 52"
      using 1 k1 by (simp add: field_simps)
    from l r show ?thesis by auto
  next
    case 3
    then have m: "num_le (Fin 2) (fl x)"
      using fl_mono [of 2 x] by (simp add: fl_two)
    have l: "\<not> num_le (fl x) (Fin (of_int k / 2 ^ 52))"
    proof
      assume "num_le (fl x) (Fin (of_int k / 2 ^ 52))"
      from num_le_trans [OF m this] have "(2 :: rat) \<le> of_int k / 2 ^ 52" by simp
      with k2 show False by (simp add: field_simps)
    qed
    have r: "(of_int k + 1 / 2) / 2 ^ 52 < x"
      using 3 k2 by (simp add: field_simps)
    from l r show ?thesis by auto
  next
    case 2
    have "num_le (fl x) (Fin (of_int k / 2 ^ 52)) \<longleftrightarrow> roundHalfEven (x * 2 ^ 52) \<le> k"
      by (simp add: fl_one_two [OF 2] divide_le_cancel)
    also have "\<dots> \<longleftrightarrow> (if even k then x * 2 ^ 52 \<le> of_int k + 1 / 2
                         else x * 2 ^ 52 < of_int k + 1 / 2)"
      by (rule roundHalfEven_le_iff)
    also have "\<dots> \<longleftrightarrow> (if even k then x \<le> (of_int k + 1 / 2) / 2 ^ 52
                         else x < (of_int k + 1 / 2) / 2 ^ 52)"
      by (simp add: field_simps)
    finally show ?thesis .
  qed
qed

text \<open>
  The literals 0.7 to 1.3 as binary64 numbers, and the rationals whose rounding passes
  the comparison with each of them. 0.7, 0.8 and 0.9 are compared from below, 1.1, 1.2
  and 1.3 from above; the bound differs from the decimal value by less than
  \<open>2\<^sup>-\<^sup>5\<^sup>3\<close> below and \<open>2\<^sup>-\<^sup>5\<^sup>2\<close> above, outwards.
\<close>

lemma literal_values:
  "num_0_7 = Fin (of_int 6305039478318694 / 2 ^ 53)"
  "num_0_8 = Fin (of_int 7205759403792794 / 2 ^ 53)"
  "num_0_9 = Fin (of_int 8106479329266893 / 2 ^ 53)"
  "num_1_1 = Fin (of_int 4953959590107546 / 2 ^ 52)"
  "num_1_2 = Fin (of_int 5404319552844595 / 2 ^ 52)"
  "num_1_3 = Fin (of_int 5854679515581645 / 2 ^ 52)"
  by code_simp+

lemma band_lower:
  "num_le num_0_9 (fl x) \<longleftrightarrow> 9 / 10 - 3 / (10 * 2 ^ 53) < x"
  "num_le num_0_8 (fl x) \<longleftrightarrow> 8 / 10 - 1 / (10 * 2 ^ 53) \<le> x"
  "num_le num_0_7 (fl x) \<longleftrightarrow> 7 / 10 - 9 / (10 * 2 ^ 53) \<le> x"
  unfolding literal_values
  by (subst fl_ge_half_one; simp)+

lemma band_upper:
  "num_le (fl x) num_1_1 \<longleftrightarrow> x \<le> 11 / 10 + 9 / (10 * 2 ^ 52)"
  "num_le (fl x) num_1_2 \<longleftrightarrow> x < 12 / 10 + 3 / (10 * 2 ^ 52)"
  "num_le (fl x) num_1_3 \<longleftrightarrow> x < 13 / 10 + 7 / (10 * 2 ^ 52)"
  unfolding literal_values
  by (subst fl_le_one_two; simp)+

section \<open>Properties of the rounding to two decimals\<close>

text \<open>
  The integer that \<open>toFixed(2)\<close> prints is the rounding half up on the third decimal
  digit, and it is the integer the language definition asks for: the one whose
  hundredth is nearest to the number, the larger one of two.
\<close>

lemma toFixed2_n_halfUp:
  assumes "0 \<le> a"
  shows "toFixed2_n a = halfUpHundredths a"
proof -
  define k where "k = \<lfloor>a * 1000\<rfloor>"
  define m where "m = k div 10"
  define d where "d = k mod 10"
  have kd: "k = 10 * m + d" and d0: "0 \<le> d" and d10: "d < 10"
    by (simp_all add: m_def d_def)
  have lo: "of_int k \<le> a * 1000" and hi: "a * 1000 < of_int k + 1"
    using floor_correct [of "a * 1000"] by (simp_all add: k_def)
  have kr: "(of_int k :: rat) = 10 * of_int m + of_int d"
    by (simp add: kd)
  have dr: "(0::rat) \<le> of_int d" "(of_int d :: rat) \<le> 9"
    using d0 d10 by simp_all
  show ?thesis
  proof (cases "5 \<le> d")
    case True
    then have d5: "(5::rat) \<le> of_int d" by simp
    have "\<lfloor>a * 100 + 1 / 2\<rfloor> = m + 1"
    proof (rule floor_unique)
      show "of_int (m + 1) \<le> a * 100 + 1 / 2"
        using lo kr d5 by simp
      show "a * 100 + 1 / 2 < of_int (m + 1) + 1"
        using hi kr dr by simp
    qed
    with True show ?thesis
      by (simp add: toFixed2_n_def halfUpHundredths_def Let_def k_def [symmetric]
          m_def [symmetric] d_def [symmetric])
  next
    case False
    then have d4: "(of_int d :: rat) \<le> 4" by simp
    have "\<lfloor>a * 100 + 1 / 2\<rfloor> = m"
    proof (rule floor_unique)
      show "of_int m \<le> a * 100 + 1 / 2"
        using lo kr dr by simp
      show "a * 100 + 1 / 2 < of_int m + 1"
        using hi kr d4 by simp
    qed
    with False show ?thesis
      by (simp add: toFixed2_n_def halfUpHundredths_def Let_def k_def [symmetric]
          m_def [symmetric] d_def [symmetric])
  qed
qed

lemma toFixed2_n_nearest:
  assumes "0 \<le> a"
  shows "\<bar>of_int (toFixed2_n a) / 100 - a\<bar> \<le> \<bar>of_int j / 100 - a\<bar>
         \<and> (\<bar>of_int j / 100 - a\<bar> = \<bar>of_int (toFixed2_n a) / 100 - a\<bar> \<longrightarrow> j \<le> toFixed2_n a)"
proof -
  define n where "n = toFixed2_n a"
  have lo: "of_int n \<le> a * 100 + 1 / 2" and hi: "a * 100 + 1 / 2 < of_int n + 1"
    using floor_correct [of "a * 100 + 1 / 2"] by (simp_all add: n_def toFixed2_n_def)
  consider "j \<le> n - 1" | "j = n" | "n + 1 \<le> j" by linarith
  then show ?thesis
  proof cases
    case 1
    then have "(of_int j :: rat) \<le> of_int (n - 1)" by (simp only: of_int_le_iff)
    then have "(of_int j :: rat) \<le> of_int n - 1" by simp
    with lo hi show ?thesis unfolding n_def [symmetric] using 1 by (auto simp: abs_if)
  next
    case 2
    then show ?thesis unfolding n_def [symmetric] by simp
  next
    case 3
    then have "(of_int (n + 1) :: rat) \<le> of_int j" by (simp only: of_int_le_iff)
    then have "(of_int n :: rat) + 1 \<le> of_int j" by simp
    with lo hi show ?thesis unfolding n_def [symmetric] using 3 by (auto simp: abs_if)
  qed
qed

lemma parseFloat_toFixed2_halfUp:
  assumes "\<bar>q\<bar> < 10 ^ 21"
  shows "parseFloat_toFixed2 (Fin q) = fl (roundHalfUp2 q)"
  using assms by (simp add: parseFloat_toFixed2_def roundHalfUp2_def toFixed2_n_halfUp)

section \<open>Properties of the ion-balance test\<close>

text \<open>
  The ion-balance test on a rounded value \<open>n / 100\<close>: the comparison of the binary64
  values against the literals 0.9 and 1.1 decides the same as the comparison of the
  hundredths, because rounding is monotone and 0.89, 0.9, 1.1 and 1.11 round to four
  different numbers.
\<close>

lemma num_le_less_trans: "num_le a b \<Longrightarrow> num_less b c \<Longrightarrow> num_less a c"
  by (cases a; cases b; cases c) (auto simp: num_le_def isNaN_def)

lemma num_less_le_trans: "num_less a b \<Longrightarrow> num_le b c \<Longrightarrow> num_less a c"
  by (cases a; cases b; cases c) (auto simp: num_le_def isNaN_def)

lemma num_less_not_le: "num_less a b \<Longrightarrow> \<not> num_le b a"
  by (cases a; cases b) (auto simp: num_le_def isNaN_def)

lemma literal_order:
  "num_less (fl (89 / 100)) num_0_9"
  "num_less num_1_1 (fl (111 / 100))"
  "num_less (Fin 0) num_0_9"
  "num_less num_1_1 (Fin (10 ^ 21))"
  by code_simp+

lemma fl_zero [simp]: "fl 0 = Fin 0"
  by (simp add: fl_def)

lemma ibOk_hundredths: "ibOk (fl (of_int n / 100)) \<longleftrightarrow> 90 \<le> n \<and> n \<le> 110"
proof -
  have lo: "num_le num_0_9 (fl (of_int n / 100))" if "90 \<le> n"
  proof -
    from that have "(of_int 90 :: rat) \<le> of_int n" by (simp only: of_int_le_iff)
    then have "(9::rat) / 10 \<le> of_int n / 100" by simp
    then show ?thesis unfolding num_0_9_def by (rule fl_mono)
  qed
  have lo': "\<not> num_le num_0_9 (fl (of_int n / 100))" if "n \<le> 89"
  proof -
    from that have "(of_int n :: rat) \<le> of_int 89" by (simp only: of_int_le_iff)
    then have "(of_int n :: rat) / 100 \<le> 89 / 100" by simp
    then have "num_le (fl (of_int n / 100)) (fl (89 / 100))" by (rule fl_mono)
    then have "num_less (fl (of_int n / 100)) num_0_9"
      using literal_order(1) by (rule num_le_less_trans)
    then show ?thesis by (rule num_less_not_le)
  qed
  have hi: "num_le (fl (of_int n / 100)) num_1_1" if "n \<le> 110"
  proof -
    from that have "(of_int n :: rat) \<le> of_int 110" by (simp only: of_int_le_iff)
    then have "(of_int n :: rat) / 100 \<le> 11 / 10" by simp
    then show ?thesis unfolding num_1_1_def by (rule fl_mono)
  qed
  have hi': "\<not> num_le (fl (of_int n / 100)) num_1_1" if "111 \<le> n"
  proof -
    from that have "(of_int 111 :: rat) \<le> of_int n" by (simp only: of_int_le_iff)
    then have "(111::rat) / 100 \<le> of_int n / 100" by simp
    then have "num_le (fl (111 / 100)) (fl (of_int n / 100))" by (rule fl_mono)
    with literal_order(2) have "num_less num_1_1 (fl (of_int n / 100))"
      by (rule num_less_le_trans)
    then show ?thesis by (rule num_less_not_le)
  qed
  show ?thesis
  proof (cases "90 \<le> n \<and> n \<le> 110")
    case True
    with lo hi show ?thesis
      by (simp add: ibOk_def num_ge_def isNaN_def)
  next
    case False
    then have "n \<le> 89 \<or> 111 \<le> n" by linarith
    with lo' hi' False show ?thesis
      by (auto simp: ibOk_def num_ge_def)
  qed
qed

lemma toFixed2_n_nonneg: "0 \<le> a \<Longrightarrow> 0 \<le> toFixed2_n a"
  by (simp add: toFixed2_n_def)

lemma hundredths_ge_iff: "(9::rat) / 10 \<le> of_int n / 100 \<longleftrightarrow> 90 \<le> n"
proof -
  have "((9::rat) / 10 \<le> of_int n / 100) = ((of_int 90 :: rat) \<le> of_int n)" by simp
  also have "\<dots> = (90 \<le> n)" by (simp only: of_int_le_iff)
  finally show ?thesis .
qed

lemma hundredths_le_iff: "(of_int n :: rat) / 100 \<le> 11 / 10 \<longleftrightarrow> n \<le> 110"
proof -
  have "((of_int n :: rat) / 100 \<le> 11 / 10) = ((of_int n :: rat) \<le> of_int 110)" by simp
  also have "\<dots> = (n \<le> 110)" by (simp only: of_int_le_iff)
  finally show ?thesis .
qed

lemma ibOk_roundQuotientIons:
  "ibOk (roundQuotientIons (Fin q))
     \<longleftrightarrow> 9 / 10 \<le> roundHalfUp2 q \<and> roundHalfUp2 q \<le> 11 / 10"
proof (cases "q < 0")
  case True
  then have n0: "0 \<le> toFixed2_n (- q)" by (simp add: toFixed2_n_nonneg)
  then have "(0::rat) \<le> of_int (toFixed2_n (- q)) / 100" by simp
  then have arg: "- (of_int (toFixed2_n (- q)) / 100) \<le> (0::rat)" by simp
  have "roundHalfUp2 q \<le> 0"
    using True arg by (simp add: roundHalfUp2_def toFixed2_n_halfUp)
  then have rhs: "\<not> (9 / 10 \<le> roundHalfUp2 q)" by simp
  have "num_le (roundQuotientIons (Fin q)) (Fin 0)"
  proof (cases "10 ^ 21 \<le> \<bar>q\<bar>")
    case big: True
    with True show ?thesis
      by (simp add: roundQuotientIons_def parseFloat_toFixed2_def isNaN_def)
  next
    case small: False
    from fl_mono [OF arg] have "num_le (fl (- (of_int (toFixed2_n (- q)) / 100))) (Fin 0)"
      by simp
    with True small show ?thesis
      by (simp add: roundQuotientIons_def parseFloat_toFixed2_def isNaN_def)
  qed
  then have "num_less (roundQuotientIons (Fin q)) num_0_9"
    using literal_order(3) by (rule num_le_less_trans)
  then have "\<not> num_le num_0_9 (roundQuotientIons (Fin q))" by (rule num_less_not_le)
  then have "\<not> ibOk (roundQuotientIons (Fin q))" by (simp add: ibOk_def num_ge_def)
  with rhs show ?thesis by simp
next
  case False
  then have q0: "0 \<le> q" by simp
  have r: "roundHalfUp2 q = of_int (toFixed2_n q) / 100"
    using False q0 by (simp add: roundHalfUp2_def toFixed2_n_halfUp)
  show ?thesis
  proof (cases "10 ^ 21 \<le> q")
    case True
    then have "num_le (Fin (10 ^ 21)) (Fin q)" by simp
    with literal_order(4) have "num_less num_1_1 (Fin q)" by (rule num_less_le_trans)
    then have "\<not> num_le (Fin q) num_1_1" by (rule num_less_not_le)
    then have lhs: "\<not> ibOk (roundQuotientIons (Fin q))"
      using True q0 by (simp add: ibOk_def roundQuotientIons_def parseFloat_toFixed2_def isNaN_def)
    have "q * 100 + 1 / 2 < of_int (toFixed2_n q) + 1"
      using floor_correct [of "q * 100 + 1 / 2"] by (simp add: toFixed2_n_def)
    with True have "(110::rat) < of_int (toFixed2_n q)" by simp
    then have "\<not> roundHalfUp2 q \<le> 11 / 10" unfolding r by simp
    with lhs show ?thesis by simp
  next
    case small: False
    with q0 have "roundQuotientIons (Fin q) = fl (of_int (toFixed2_n q) / 100)"
      by (simp add: roundQuotientIons_def parseFloat_toFixed2_def isNaN_def)
    then show ?thesis
      unfolding r by (simp only: ibOk_hundredths hundredths_ge_iff hundredths_le_iff)
  qed
qed

lemma roundQuotientIons_halfUp:
  "\<bar>q\<bar> < 10 ^ 21 \<Longrightarrow> roundQuotientIons (Fin q) = fl (roundHalfUp2 q)"
  by (simp add: roundQuotientIons_def isNaN_def parseFloat_toFixed2_halfUp)

text \<open>
  The two copies of the computation are the same function, and the fields of a row are
  the blocks of the source applied to each other.
\<close>

lemma exportRow_eq: "exportRow h row = processRow h row"
proof -
  have 1: "selectCond_export = selectCond"
    by (intro ext) (simp add: selectCond_export_def selectCond_def)
  have 2: "rQI_export = roundQuotientIons"
    by (intro ext) (simp add: rQI_export_def roundQuotientIons_def)
  have 3: "ibOk_export = ibOk"
    by (intro ext) (simp add: ibOk_export_def ibOk_def)
  have 4: "lfCheck_export = lfCheck"
    by (intro ext) (simp add: lfCheck_export_def lfCheck_def)
  have 5: "remark_export = remark"
    by (intro ext) (simp add: remark_export_def remark_def)
  have 6: "autoComment_export = autoCommentOf"
    by (intro ext) (simp add: autoComment_export_def autoCommentOf_def)
  have 7: "diagnose_export = diagnose"
    by (intro ext) (simp only: diagnose_export_def diagnose_def 1 2 3 4 5 6 Let_def)
  show ?thesis
    by (simp only: exportRow_def processRow_def 7)
qed

lemma processRow_fields:
  "numCond (processRow hs row) = parseGermanFloat (Some (cond (processRow hs row)))"
  "roundedQuotientIons (processRow hs row) = roundQuotientIons (numQuotientIons (processRow hs row))"
  "isIbOk (processRow hs row) = ibOk (roundedQuotientIons (processRow hs row))"
  "isLfOk (processRow hs row)
     = fst (lfCheck (numCond (processRow hs row)) (numTheoCond (processRow hs row)))"
  "calculatedCondQuotient (processRow hs row)
     = snd (lfCheck (numCond (processRow hs row)) (numTheoCond (processRow hs row)))"
  "bemerkung (processRow hs row)
     = remark (isRepeat row) (roundedQuotientIons (processRow hs row))
         (calculatedCondQuotient (processRow hs row)) (isIbOk (processRow hs row))
         (isLfOk (processRow hs row))"
  "autoComment (processRow hs row)
     = autoCommentOf (isRepeat row) (isIbOk (processRow hs row)) (isLfOk (processRow hs row))
         (numCorg (processRow hs row)) (numCond (processRow hs row))"
  "numQuotientIons (processRow hs row)
     = parseGermanFloat (colValue row (findCol hs (\<lambda>h. h = ''Quotient Kationen Anionen NFV'')))"
  "numTheoCond (processRow hs row)
     = parseGermanFloat (colValue row (findCol hs (\<lambda>h. h = ''Theo elekt Leit (EU) korr'')))"
  "numCorg (processRow hs row)
     = parseGermanFloat (colValue row (findCol hs (\<lambda>h. h = ''Corg berechnet'')))"
  "cond (processRow hs row)
     = fst (selectCond (colValue row (findCol hs (\<lambda>h. h = ''LFLFLFM3.1'')))
              (colValue row (findCol hs (\<lambda>h. h = ''LFLFLFM1.3''))))"
  "isCondFallback (processRow hs row)
     = snd (selectCond (colValue row (findCol hs (\<lambda>h. h = ''LFLFLFM3.1'')))
              (colValue row (findCol hs (\<lambda>h. h = ''LFLFLFM1.3''))))"
  by (simp_all add: processRow_def diagnose_def Let_def)

section \<open>Printing with two decimals and parsing back\<close>

text \<open>
  The string that \<open>toFixed(2)\<close> prints consists of a sign, digits, a period and two
  digits; \<open>parseFloat\<close> reads it back as the hundredths it was printed from.
\<close>

lemma digit_chars:
  assumes "n < 10"
  shows "isDigit (''0123456789'' ! n) \<and> digitVal (''0123456789'' ! n) = int n"
proof -
  have "[0..<10] = [0, 1, 2, 3, 4, 5, 6, 7, 8, 9 :: nat]" by code_simp
  moreover have "n \<in> set [0..<10]" using assms by simp
  ultimately have "n \<in> set [0, 1, 2, 3, 4, 5, 6, 7, 8, 9 :: nat]" by (simp only:)
  then show ?thesis
    by (auto simp: isDigit_def digitVal_def)
qed

lemma digitsVal_append: "digitsVal (xs @ [c]) = 10 * digitsVal xs + digitVal c"
  by (simp add: digitsVal_def)

lemma string_of_nat_digits:
  "list_all isDigit (string_of_nat n) \<and> digitsVal (string_of_nat n) = int n
   \<and> string_of_nat n \<noteq> []"
proof (induction n rule: string_of_nat.induct)
  case (1 n)
  show ?case
  proof (cases "n < 10")
    case True
    with digit_chars [of n] show ?thesis
      by (simp add: string_of_nat.simps [of n] digitsVal_def)
  next
    case False
    have m: "n mod 10 < 10" by simp
    from False 1 have ih: "list_all isDigit (string_of_nat (n div 10))"
      "digitsVal (string_of_nat (n div 10)) = int (n div 10)" by simp_all
    have a: "10 * int (n div 10) + int (n mod 10) = int n" by presburger
    from False ih digit_chars [OF m] a show ?thesis
      by (simp add: string_of_nat.simps [of n] digitsVal_append)
  qed
qed


lemma takeWhile_digits:
  "list_all isDigit a \<Longrightarrow> takeWhile isDigit (a @ CHR ''.'' # b) = a
     \<and> dropWhile isDigit (a @ CHR ''.'' # b) = CHR ''.'' # b"
  by (induction a) (simp_all add: isDigit_def)

lemma takeWhile_all: "list_all Q a \<Longrightarrow> takeWhile Q a = a \<and> dropWhile Q a = []"
  by (induction a) simp_all

lemma digitsVal_zeros: "digitsVal (replicate j CHR ''0'' @ ds) = digitsVal ds"
proof -
  have "foldl (\<lambda>n c. 10 * n + digitVal c) 0 (replicate j CHR ''0'') = 0"
    by (induction j) (simp_all add: digitVal_def)
  then show ?thesis by (simp add: digitsVal_def)
qed

lemma toFixed2_shape:
  assumes "0 \<le> n"
  defines "m \<equiv> string_of_nat (nat n)"
  defines "m' \<equiv> (if length m \<le> 2 then replicate (3 - length m) CHR ''0'' @ m else m)"
  shows "list_all isDigit m' \<and> digitsVal m' = n \<and> 3 \<le> length m'"
proof -
  from string_of_nat_digits [of "nat n"] assms(1)
  have d: "list_all isDigit m" "digitsVal m = n" "m \<noteq> []"
    by (simp_all add: m_def)
  have z: "isDigit CHR ''0''" by (simp add: isDigit_def)
  show ?thesis
  proof (cases "length m \<le> 2")
    case True
    with d z show ?thesis
      by (simp add: m'_def digitsVal_zeros list_all_iff)
  next
    case False
    with d show ?thesis by (simp add: m'_def)
  qed
qed


lemma digit_not_special:
  assumes "isDigit c"
  shows "\<not> isWhiteSpace c" "c \<noteq> CHR ''-''" "c \<noteq> CHR ''+''" "c \<noteq> CHR ''I''" "c \<noteq> CHR ''.''"
  using assms by (auto simp: isDigit_def isWhiteSpace_def)

lemma parseFloat_decimal:
  assumes "list_all isDigit a" "a \<noteq> []" "list_all isDigit b"
  shows "parseFloat (a @ CHR ''.'' # b)
           = fl (of_int (digitsVal (a @ b)) * 10 powi (- int (length b)))"
    and "parseFloat (CHR ''-'' # a @ CHR ''.'' # b)
           = fl (- (of_int (digitsVal (a @ b)) * 10 powi (- int (length b))))"
proof -
  from assms(1,2) obtain c a' where a: "a = c # a'" and c: "isDigit c"
    by (cases a) auto
  note sp = digit_not_special [OF c]
  have ws: "\<not> isWhiteSpace CHR ''-''" by (simp add: isWhiteSpace_def)
  have tw: "takeWhile isDigit (a @ CHR ''.'' # b) = a"
    "dropWhile isDigit (a @ CHR ''.'' # b) = CHR ''.'' # b"
    using takeWhile_digits [OF assms(1)] by simp_all
  have twb: "takeWhile isDigit b = b" "dropWhile isDigit b = []"
    using takeWhile_all [OF assms(3)] by simp_all
  have inf: "\<not> startsWith (a @ CHR ''.'' # b) ''Infinity''"
    using sp(4) by (simp add: a)
  have ex: "exponentPart [] = 0" by (simp add: exponentPart_def)
  have u1: "dropWhile isWhiteSpace (a @ CHR ''.'' # b) = a @ CHR ''.'' # b"
    using sp(1) by (simp add: a)
  have u2: "dropWhile isWhiteSpace (CHR ''-'' # a @ CHR ''.'' # b) = CHR ''-'' # a @ CHR ''.'' # b"
    using ws by simp
  have h1: "(case a @ CHR ''.'' # b of [] \<Rightarrow> False | c # cs \<Rightarrow> c = CHR ''-'') = False"
    using sp(2) by (simp add: a)
  have h2: "(case a @ CHR ''.'' # b of [] \<Rightarrow> []
             | c # cs \<Rightarrow> if c = CHR ''-'' \<or> c = CHR ''+'' then cs else a @ CHR ''.'' # b)
            = a @ CHR ''.'' # b"
    using sp(2,3) by (simp add: a)
  show "parseFloat (a @ CHR ''.'' # b)
           = fl (of_int (digitsVal (a @ b)) * 10 powi (- int (length b)))"
    unfolding parseFloat_def u1 Let_def h1 h2
    using inf assms(2) by (simp add: tw twb ex)
  show "parseFloat (CHR ''-'' # a @ CHR ''.'' # b)
           = fl (- (of_int (digitsVal (a @ b)) * 10 powi (- int (length b))))"
    unfolding parseFloat_def u2 Let_def
    using inf assms(2) by (simp add: tw twb ex)
qed

lemma parseFloat_toFixed2_string:
  assumes "\<bar>q\<bar> < 10 ^ 21"
  shows "parseFloat (toFixed2 q) = parseFloat_toFixed2 (Fin q)"
proof -
  define n where "n = toFixed2_n \<bar>q\<bar>"
  define m where "m = string_of_nat (nat n)"
  define m' where "m' = (if length m \<le> 2 then replicate (3 - length m) CHR ''0'' @ m else m)"
  define a where "a = take (length m' - 2) m'"
  define b where "b = drop (length m' - 2) m'"
  have n0: "0 \<le> n" by (simp add: n_def toFixed2_n_nonneg)
  have "list_all isDigit m' \<and> digitsVal m' = n \<and> 3 \<le> length m'"
    unfolding m'_def m_def by (rule toFixed2_shape [OF n0])
  then have sh: "list_all isDigit m'" "digitsVal m' = n" "3 \<le> length m'"
    by blast+
  have ab: "a @ b = m'" by (simp add: a_def b_def)
  have da: "list_all isDigit a" and db: "list_all isDigit b"
    using sh(1) by (auto simp: a_def b_def list_all_iff dest: in_set_takeD in_set_dropD)
  have a0: "a \<noteq> []" using sh(3) by (auto simp: a_def)
  have lb: "length b = 2" using sh(3) by (simp add: b_def)
  have str: "toFixed2 q = (if q < 0 then ''-'' else []) @ a @ CHR ''.'' # b"
    by (simp add: toFixed2_def Let_def n_def m_def m'_def a_def b_def)
  have v: "(of_int (digitsVal (a @ b)) :: rat) * 10 powi (- int (length b)) = of_int n / 100"
    by (simp add: ab sh(2) lb power_int_minus field_simps)
  show ?thesis
  proof (cases "q < 0")
    case True
    then have "\<bar>q\<bar> = - q" by simp
    with True assms parseFloat_decimal(2) [OF da a0 db] v show ?thesis
      by (simp add: str parseFloat_toFixed2_def n_def)
  next
    case False
    then have "\<bar>q\<bar> = q" by simp
    with False assms parseFloat_decimal(1) [OF da a0 db] v show ?thesis
      by (simp add: str parseFloat_toFixed2_def n_def)
  qed
qed

text \<open>
  A quotient whose exact value lies between two bounds passes the test of the program
  against the literals of these bounds, since rounding to binary64 is monotone.
\<close>

lemma js_div_between:
  assumes "b \<noteq> 0" "lo \<le> a / b" "a / b \<le> hi"
  shows "num_le (fl lo) (js_div (Fin a) (Fin b)) \<and> num_le (js_div (Fin a) (Fin b)) (fl hi)"
  using assms by (simp add: fl_mono)

section \<open>Properties of the diagnostics of a row\<close>

text \<open>The conductivity block, and the rows of the examples evaluated.\<close>

lemma num_less_NaN [simp]: "\<not> num_less NaN x" "\<not> num_less x NaN"
  by (cases x; simp)+

lemma lfCheck_undefined:
  "isNaN m \<or> isNaN t \<or> t = Fin 0 \<Longrightarrow> lfCheck m t = (False, NaN)"
  by (auto simp: lfCheck_def)

lemma lfCheck_defined:
  assumes "\<not> isNaN m" "\<not> isNaN t" "t \<noteq> Fin 0"
  shows "snd (lfCheck m t) = js_div m t"
    and "num_gt m (Fin 20) \<Longrightarrow>
           fst (lfCheck m t) \<longleftrightarrow> num_le num_0_9 (js_div m t) \<and> num_le (js_div m t) num_1_1"
    and "num_ge m (Fin 10) \<Longrightarrow> num_le m (Fin 20) \<Longrightarrow>
           fst (lfCheck m t) \<longleftrightarrow> num_le num_0_8 (js_div m t) \<and> num_le (js_div m t) num_1_2"
    and "num_less m (Fin 10) \<Longrightarrow>
           fst (lfCheck m t) \<longleftrightarrow> num_le num_0_7 (js_div m t) \<and> num_le (js_div m t) num_1_3"
proof -
  show "snd (lfCheck m t) = js_div m t"
    using assms by (simp add: lfCheck_def Let_def)
  show "fst (lfCheck m t) \<longleftrightarrow> num_le num_0_9 (js_div m t) \<and> num_le (js_div m t) num_1_1"
    if "num_gt m (Fin 20)"
    using assms that by (simp add: lfCheck_def Let_def num_ge_def)
  show "fst (lfCheck m t) \<longleftrightarrow> num_le num_0_8 (js_div m t) \<and> num_le (js_div m t) num_1_2"
    if "num_ge m (Fin 10)" "num_le m (Fin 20)"
    using assms that by (simp add: lfCheck_def Let_def num_ge_def num_gt_def num_le_def)
  show "fst (lfCheck m t) \<longleftrightarrow> num_le num_0_7 (js_div m t) \<and> num_le (js_div m t) num_1_3"
    if "num_less m (Fin 10)"
  proof -
    from that have "\<not> num_less (Fin 20) m"
      by (cases m) (simp_all add: isNaN_def)
    with assms that show ?thesis
      by (simp add: lfCheck_def Let_def num_ge_def num_gt_def num_le_def)
  qed
qed

lemma isRepeat_ionRow [simp]: "isRepeat (ionRow rep vCorg vCond vIons vTheo) = rep"
  by (simp add: ionRow_def)

lemma row_ib_ok_lf_not:
  "processRow ionHeaders (ionRow False ''25'' ''15'' ''1,004'' ''10'') =
    \<lparr>cond = ''15'', isCondFallback = False, numCorg = Fin 25, numCond = Fin 15,
     numTheoCond = Fin 10, numQuotientIons = Fin (2260807012939989 / 2251799813685248),
     roundedQuotientIons = Fin 1, isIbOk = True, calculatedCondQuotient = Fin (3 / 2),
     isLfOk = False, bemerkung = ''IB ok, LF nicht'', autoComment = ''Corg>20''\<rparr>"
  by code_simp

lemma row_ib_not_lf_ok:
  "processRow ionHeaders (ionRow False ''5'' ''25'' ''1,114'' ''25'') =
    \<lparr>cond = ''25'', isCondFallback = False, numCorg = Fin 5, numCond = Fin 25,
     numTheoCond = Fin 25, numQuotientIons = Fin (5017009984890733 / 4503599627370496),
     roundedQuotientIons = Fin (4998995586381251 / 4503599627370496), isIbOk = False,
     calculatedCondQuotient = Fin 1, isLfOk = True, bemerkung = ''IB nicht ok ; LF ok'',
     autoComment = comment_low_cond\<rparr>"
  by code_simp

lemma row_no_theo:
  "processRow ionHeaders (ionRow False ''12'' ''40'' ''0,5'' ''abc'') =
    \<lparr>cond = ''40'', isCondFallback = False, numCorg = Fin 12, numCond = Fin 40,
     numTheoCond = NaN, numQuotientIons = Fin (1 / 2),
     roundedQuotientIons = Fin (1 / 2), isIbOk = False,
     calculatedCondQuotient = NaN, isLfOk = False, bemerkung = ''IB nicht ok'',
     autoComment = ''Corg>10 LTF<50''\<rparr>"
  by code_simp

lemma row_repeat:
  "processRow ionHeaders (ionRow True ''25'' ''15'' ''1,004'' ''10'') =
    \<lparr>cond = ''15'', isCondFallback = False, numCorg = Fin 25, numCond = Fin 15,
     numTheoCond = Fin 10, numQuotientIons = Fin (2260807012939989 / 2251799813685248),
     roundedQuotientIons = Fin 1, isIbOk = True, calculatedCondQuotient = Fin (3 / 2),
     isLfOk = False, bemerkung = [], autoComment = []\<rparr>"
  by code_simp

lemma rounding_examples:
  "roundQuotientIons (parseGermanFloat (Some ''1,004'')) = Fin 1"
  "roundQuotientIons (parseGermanFloat (Some ''1,114'')) = fl (111 / 100)"
  "roundHalfUp2 (2260807012939989 / 2251799813685248) = 1"
  by code_simp+

text \<open>
  C2. When the ion quotient of a row parses to a number \<open>q\<close>, the engine rounds \<open>q\<close> to
  two decimals, half up on the third decimal digit, and the ion-balance diagnostic is
  valid if and only if the rounded value lies in [0.9, 1.1], both ends included. Here
  \<open>q\<close> is the number the text parses to, with its exact value. The text 1,004 gives
  the rounded value 1.00, which is valid; 1,114 gives 1.11, which is not; the rounded
  values 0.90 and 1.10 are valid. The export computes the same.
\<close>

theorem ion_quotient_rounding_validity:
  assumes "parseGermanFloat
             (colValue row (findCol hs (\<lambda>h. h = ''Quotient Kationen Anionen NFV''))) = Fin q"
  shows "numQuotientIons (processRow hs row) = Fin q
     \<and> (\<bar>q\<bar> < 10 ^ 21 \<longrightarrow> roundedQuotientIons (processRow hs row) = fl (roundHalfUp2 q))
     \<and> (isIbOk (processRow hs row) \<longleftrightarrow> 9 / 10 \<le> roundHalfUp2 q \<and> roundHalfUp2 q \<le> 11 / 10)
     \<and> exportRow hs row = processRow hs row
     \<and> roundQuotientIons (parseGermanFloat (Some ''1,004'')) = Fin 1 \<and> ibOk (Fin 1)
     \<and> roundQuotientIons (parseGermanFloat (Some ''1,114'')) = fl (111 / 100)
     \<and> \<not> ibOk (fl (111 / 100))
     \<and> ibOk (fl (90 / 100)) \<and> ibOk (fl (110 / 100))"
proof -
  have n: "numQuotientIons (processRow hs row) = Fin q"
    using assms by (simp only: processRow_fields(8))
  have a: "\<bar>q\<bar> < 10 ^ 21 \<longrightarrow> roundedQuotientIons (processRow hs row) = fl (roundHalfUp2 q)"
    using n by (simp add: processRow_fields(2) roundQuotientIons_halfUp)
  have b: "isIbOk (processRow hs row) \<longleftrightarrow> 9 / 10 \<le> roundHalfUp2 q \<and> roundHalfUp2 q \<le> 11 / 10"
    using n ibOk_roundQuotientIons [of q] by (simp add: processRow_fields(2,3))
  have c: "ibOk (Fin 1)" "\<not> ibOk (fl (111 / 100))" "ibOk (fl (90 / 100))" "ibOk (fl (110 / 100))"
    using ibOk_hundredths [of 100] ibOk_hundredths [of 111] ibOk_hundredths [of 90]
      ibOk_hundredths [of 110] rounding_examples(1) roundQuotientIons_halfUp [of "100 / 100"]
    by (simp_all add: fl_def fl_pos_def ilog2_def roundHalfEven_def Let_def compute_bitlen)
  from n a b c exportRow_eq [of hs row] rounding_examples(1,2) show ?thesis by simp
qed

theorem ion_quotient_rounding_validity_witness:
  "parseGermanFloat (colValue (ionRow False ''25'' ''15'' ''1,004'' ''10'')
      (findCol ionHeaders (\<lambda>h. h = ''Quotient Kationen Anionen NFV'')))
     = Fin (2260807012939989 / 2251799813685248)
   \<and> roundedQuotientIons (processRow ionHeaders (ionRow False ''25'' ''15'' ''1,004'' ''10''))
     = fl 1
   \<and> isIbOk (processRow ionHeaders (ionRow False ''25'' ''15'' ''1,004'' ''10''))"
proof -
  have h: "parseGermanFloat (colValue (ionRow False ''25'' ''15'' ''1,004'' ''10'')
      (findCol ionHeaders (\<lambda>h. h = ''Quotient Kationen Anionen NFV'')))
     = Fin (2260807012939989 / 2251799813685248)"
    by code_simp
  from ion_quotient_rounding_validity [OF h] h show ?thesis
    by (simp add: rounding_examples(3))
qed

text \<open>
  The text 1,105 parses to a binary64 number just below 1.105, whose third decimal digit
  is 4: it is rounded to 1.10 and the row is valid.
\<close>

lemma ion_quotient_text_1_105:
  "parseGermanFloat (Some ''1,105'') = Fin (2488238794122199 / 2251799813685248)"
  "(2488238794122199 / 2251799813685248 :: rat) < 1105 / 1000"
  "roundQuotientIons (parseGermanFloat (Some ''1,105'')) = fl (110 / 100)"
  by code_simp+

text \<open>
  The choice of the measured conductivity: the value of column 3.1 unless it is blank,
  else the value of column 1.3 unless that is blank too, else the empty text. A value is
  blank when the row has none or when it consists of white space.
\<close>

lemma trim_Nil [simp]: "trim [] = []"
  by (simp add: trim_def)

lemma selectCond_cases:
  "val31 = Some s \<Longrightarrow> trim s \<noteq> [] \<Longrightarrow> selectCond val31 val13 = (s, False)"
  "(\<forall>z. val31 = Some z \<longrightarrow> trim z = []) \<Longrightarrow> val13 = Some s \<Longrightarrow> trim s \<noteq> []
     \<Longrightarrow> selectCond val31 val13 = (s, True)"
  "(\<forall>z. val31 = Some z \<longrightarrow> trim z = []) \<Longrightarrow> (\<forall>z. val13 = Some z \<longrightarrow> trim z = [])
     \<Longrightarrow> selectCond val31 val13 = ([], False)"
  by (auto simp: selectCond_def nonBlank_def split: option.splits)

text \<open>
  The conductivity test on two finite numbers, in terms of their exact quotient; and on
  an infinite number, which is never valid.
\<close>

lemma lfCheck_finite:
  assumes "b \<noteq> 0"
  shows "snd (lfCheck (Fin a) (Fin b)) = fl (a / b)"
    and "20 < a \<Longrightarrow> fst (lfCheck (Fin a) (Fin b))
           \<longleftrightarrow> 9 / 10 - 3 / (10 * 2 ^ 53) < a / b \<and> a / b \<le> 11 / 10 + 9 / (10 * 2 ^ 52)"
    and "10 \<le> a \<Longrightarrow> a \<le> 20 \<Longrightarrow> fst (lfCheck (Fin a) (Fin b))
           \<longleftrightarrow> 8 / 10 - 1 / (10 * 2 ^ 53) \<le> a / b \<and> a / b < 12 / 10 + 3 / (10 * 2 ^ 52)"
    and "a < 10 \<Longrightarrow> fst (lfCheck (Fin a) (Fin b))
           \<longleftrightarrow> 7 / 10 - 9 / (10 * 2 ^ 53) \<le> a / b \<and> a / b < 13 / 10 + 7 / (10 * 2 ^ 52)"
proof -
  have n: "\<not> isNaN (Fin a)" "\<not> isNaN (Fin b)" "Fin b \<noteq> Fin 0"
    using assms by (simp_all add: isNaN_def)
  have q: "js_div (Fin a) (Fin b) = fl (a / b)"
    using assms by simp
  show "snd (lfCheck (Fin a) (Fin b)) = fl (a / b)"
    using lfCheck_defined(1) [OF n] q by simp
  show "fst (lfCheck (Fin a) (Fin b))
      \<longleftrightarrow> 9 / 10 - 3 / (10 * 2 ^ 53) < a / b \<and> a / b \<le> 11 / 10 + 9 / (10 * 2 ^ 52)"
    if "20 < a"
    using lfCheck_defined(2) [OF n] that
    by (simp only: q band_lower band_upper num_gt_def num_less.simps)
  show "fst (lfCheck (Fin a) (Fin b))
      \<longleftrightarrow> 8 / 10 - 1 / (10 * 2 ^ 53) \<le> a / b \<and> a / b < 12 / 10 + 3 / (10 * 2 ^ 52)"
    if "10 \<le> a" "a \<le> 20"
    using lfCheck_defined(3) [OF n] that
    by (simp only: q band_lower band_upper num_ge_def num_le_Fin)
  show "fst (lfCheck (Fin a) (Fin b))
      \<longleftrightarrow> 7 / 10 - 9 / (10 * 2 ^ 53) \<le> a / b \<and> a / b < 13 / 10 + 7 / (10 * 2 ^ 52)"
    if "a < 10"
    using lfCheck_defined(4) [OF n] that
    by (simp only: q band_lower band_upper num_less.simps)
qed

lemma lfCheck_infinite:
  assumes "m = PosInf \<or> m = NegInf \<or> t = PosInf \<or> t = NegInf"
  shows "\<not> fst (lfCheck m t)"
  using assms
  by (cases m; cases t)
     (simp_all add: lfCheck_def Let_def isNaN_def num_gt_def num_ge_def num_le_def literal_values)

text \<open>
  Two rows at the ends of a band. The texts 10,8 and 9 have the quotient 1.2, but 10,8
  parses to a number above 10.8 and the row is not valid. The text 22,000000000000004
  parses to a number whose quotient by 20 is above 1.1, and the row is valid.
\<close>

lemma row_upper_end_text:
  "processRow ionHeaders (ionRow False ''5'' ''10,8'' ''1,004'' ''9'') =
    \<lparr>cond = ''10,8'', isCondFallback = False, numCorg = Fin 5,
     numCond = Fin (3039929748475085 / 281474976710656), numTheoCond = Fin 9,
     numQuotientIons = Fin (2260807012939989 / 2251799813685248),
     roundedQuotientIons = Fin 1, isIbOk = True,
     calculatedCondQuotient = Fin (1351079888211149 / 1125899906842624),
     isLfOk = False, bemerkung = ''IB ok, LF nicht'', autoComment = comment_low_cond\<rparr>"
  by code_simp

lemma row_upper_end_parsed:
  "processRow ionHeaders (ionRow False ''5'' ''22,000000000000004'' ''1,004'' ''20'') =
    \<lparr>cond = ''22,000000000000004'', isCondFallback = False, numCorg = Fin 5,
     numCond = Fin (6192449487634433 / 281474976710656), numTheoCond = Fin 20,
     numQuotientIons = Fin (2260807012939989 / 2251799813685248),
     roundedQuotientIons = Fin 1, isIbOk = True,
     calculatedCondQuotient = Fin (2476979795053773 / 2251799813685248),
     isLfOk = True, bemerkung = ''ok'', autoComment = []\<rparr>"
  by code_simp




text \<open>
  C7. The remark of a repeat row is empty. Otherwise, with both diagnostics available
  it is one of the four texts according to the pair of the two verdicts; with the ion
  balance alone it is one of two texts; with neither diagnostic it is empty. A
  diagnostic is available when its value is a number. The export computes the same.
\<close>

theorem remark_derivation:
  "(let d = processRow hs row;
        hasIb = \<not> isNaN (roundedQuotientIons d);
        hasLf = \<not> isNaN (calculatedCondQuotient d) in
     (isRepeat row \<longrightarrow> bemerkung d = [])
     \<and> (\<not> isRepeat row \<and> hasIb \<and> hasLf \<longrightarrow>
          bemerkung d =
            (if isIbOk d then (if isLfOk d then ''ok'' else ''IB ok, LF nicht'')
             else (if isLfOk d then ''IB nicht ok ; LF ok'' else ''IB nicht ok + LF nicht ok'')))
     \<and> (\<not> isRepeat row \<and> hasIb \<and> \<not> hasLf \<longrightarrow>
          bemerkung d = (if isIbOk d then ''IB ok'' else ''IB nicht ok''))
     \<and> (\<not> isRepeat row \<and> \<not> hasIb \<and> \<not> hasLf \<longrightarrow> bemerkung d = []))
   \<and> exportRow hs row = processRow hs row"
  using exportRow_eq [of hs row]
  by (simp add: Let_def processRow_fields(6) remark_def)

theorem remark_derivation_witness:
  "bemerkung (processRow ionHeaders (ionRow False ''25'' ''15'' ''1,004'' ''10'')) = ''IB ok, LF nicht''
   \<and> bemerkung (processRow ionHeaders (ionRow False ''12'' ''40'' ''0,5'' ''abc'')) = ''IB nicht ok''
   \<and> bemerkung (processRow ionHeaders (ionRow True ''25'' ''15'' ''1,004'' ''10'')) = []"
  using remark_derivation [of ionHeaders "ionRow False ''25'' ''15'' ''1,004'' ''10''"]
    remark_derivation [of ionHeaders "ionRow False ''12'' ''40'' ''0,5'' ''abc''"]
    remark_derivation [of ionHeaders "ionRow True ''25'' ''15'' ''1,004'' ''10''"]
  by (simp add: Let_def row_ib_ok_lf_not row_no_theo row_repeat isNaN_def)

text \<open>
  C4. A repeat row has no automatic comment. For any other row the comment is empty
  when both diagnostics are valid, and otherwise the first match of the chain: organic
  carbon above 20; organic carbon above 10 with a measured conductivity below 50;
  measured conductivity above 300 with an invalid conductivity diagnostic; measured
  conductivity below 30; else empty. With organic carbon 25 and a deviation the comment
  is Corg>20 whatever the conductivity. The export computes the same.
\<close>

theorem autoComment_chain:
  "(let d = processRow hs row; deviation = (\<not> isIbOk d \<or> \<not> isLfOk d) in
     (isRepeat row \<longrightarrow> autoComment d = [])
     \<and> (\<not> isRepeat row \<and> \<not> deviation \<longrightarrow> autoComment d = [])
     \<and> (\<not> isRepeat row \<and> deviation \<longrightarrow>
          autoComment d =
            (if num_gt (numCorg d) (Fin 20) then ''Corg>20''
             else if num_gt (numCorg d) (Fin 10) \<and> num_less (numCond d) (Fin 50)
               then ''Corg>10 LTF<50''
             else if num_gt (numCond d) (Fin 300) \<and> \<not> isLfOk d then comment_ideal
             else if num_less (numCond d) (Fin 30) then comment_low_cond
             else []))
     \<and> (\<not> isRepeat row \<and> deviation \<and> numCorg d = Fin 25 \<longrightarrow> autoComment d = ''Corg>20''))
   \<and> exportRow hs row = processRow hs row"
proof -
  have nan: "num_gt x y \<Longrightarrow> \<not> isNaN x" "num_less x y \<Longrightarrow> \<not> isNaN x" for x y
    by (auto simp: num_gt_def isNaN_def)
  have g: "num_gt (Fin 25) (Fin 20)" by (simp add: num_gt_def)
  show ?thesis
    using exportRow_eq [of hs row] nan g
    by (auto simp: Let_def processRow_fields(7) autoCommentOf_def)
qed

theorem autoComment_chain_witness:
  "autoComment (processRow ionHeaders (ionRow False ''25'' ''15'' ''1,004'' ''10'')) = ''Corg>20''
   \<and> autoComment (processRow ionHeaders (ionRow False ''5'' ''25'' ''1,114'' ''25'')) = comment_low_cond
   \<and> autoComment (processRow ionHeaders (ionRow True ''25'' ''15'' ''1,004'' ''10'')) = []"
  using autoComment_chain [of ionHeaders "ionRow False ''25'' ''15'' ''1,004'' ''10''"]
    autoComment_chain [of ionHeaders "ionRow False ''5'' ''25'' ''1,114'' ''25''"]
    autoComment_chain [of ionHeaders "ionRow True ''25'' ''15'' ''1,004'' ''10''"]
  by (simp add: Let_def row_ib_ok_lf_not row_ib_not_lf_ok row_repeat num_gt_def)

end
